theory Spec2Isabelle
  imports Main
begin

section \<open>JavaScript values and strings\<close>

text \<open>
  The program is \<^verbatim>\<open>app/frontend/js/main.js\<close>, the browser client of the threat-modelling
  pipeline. It reads a stream of lines \<^verbatim>\<open>data: <json>\<close>, parses each payload with
  \<^verbatim>\<open>JSON.parse\<close> and hands the result to \<^verbatim>\<open>processStreamEvent\<close>, which inspects it
  with ordinary property reads. The events are therefore modelled as untyped JavaScript
  values, and every read that JavaScript answers with a \<^verbatim>\<open>TypeError\<close> is a branch of the
  model.

  Text is modelled as \<^typ>\<open>string\<close>: sequences of the code units U+0000 to U+00FF. The
  string operations below are the JavaScript ones on that alphabet.

  A number is \<open>JNum z s\<close>: \<open>z\<close> says whether it is zero (the only numbers of a JSON
  text that are falsy) and \<open>s\<close> is the text \<^verbatim>\<open>String(n)\<close> gives. The program observes
  nothing else of a number.
\<close>

datatype jsval =
    JUndefined
  | JNull
  | JBool bool
  | JNum bool string
  | JStr string
  | JArr "jsval list"
  | JObj "(string \<times> jsval) list"

text \<open>What a \<^verbatim>\<open>throw\<close> carries: the error's \<^verbatim>\<open>name\<close>, and the message of a plain
  \<^verbatim>\<open>Error\<close>. \<open>NotAnError\<close> is a rejection with a value that is no error object (the
  event a failed \<^verbatim>\<open>FileReader\<close> rejects with).\<close>

datatype js_error = AbortError | SyntaxError | TypeError | Error string | NotAnError

fun truthy :: "jsval \<Rightarrow> bool" where
  "truthy JUndefined = False"
| "truthy JNull = False"
| "truthy (JBool b) = b"
| "truthy (JNum z s) = (\<not> z)"
| "truthy (JStr s) = (s \<noteq> [])"
| "truthy (JArr xs) = True"
| "truthy (JObj ps) = True"

text \<open>
  \<open>own_property ps k\<close>: the value of key \<open>k\<close> in an object whose members were written in
  the order \<open>ps\<close>. \<^verbatim>\<open>JSON.parse\<close> keeps the last of several members with one key.
\<close>

definition own_property :: "(string \<times> jsval) list \<Rightarrow> string \<Rightarrow> jsval option" where
  "own_property ps k = map_of (rev ps) k"

text \<open>
  \<open>get_prop v k\<close> is the read \<^verbatim>\<open>v.k\<close> for the property names the program reads as data
  (\<^verbatim>\<open>author\<close>, \<^verbatim>\<open>finishReason\<close>, \<^verbatim>\<open>actions\<close>, \<^verbatim>\<open>toolCalls\<close>, \<^verbatim>\<open>artifactDelta\<close>,
  \<^verbatim>\<open>content\<close>, \<^verbatim>\<open>parts\<close>, \<^verbatim>\<open>text\<close>, \<^verbatim>\<open>name\<close>, \<^verbatim>\<open>response\<close>, \<^verbatim>\<open>file_path\<close>,
  \<^verbatim>\<open>filePath\<close>, \<^verbatim>\<open>id\<close>, \<^verbatim>\<open>session_id\<close>). None of them is a property of a built-in
  prototype, so the read gives an object's own member or \<^verbatim>\<open>undefined\<close>; on \<^verbatim>\<open>null\<close> and
  \<^verbatim>\<open>undefined\<close> it throws.
\<close>

fun get_prop :: "jsval \<Rightarrow> string \<Rightarrow> js_error + jsval" where
  "get_prop JUndefined k = Inl TypeError"
| "get_prop JNull k = Inl TypeError"
| "get_prop (JObj ps) k = Inr (case own_property ps k of Some v \<Rightarrow> v | None \<Rightarrow> JUndefined)"
| "get_prop v k = Inr JUndefined"

subsection \<open>String methods\<close>

definition startsWith :: "string \<Rightarrow> string \<Rightarrow> bool" where
  "startsWith s p = (take (length p) s = p)"

definition endsWith :: "string \<Rightarrow> string \<Rightarrow> bool" where
  "endsWith s p = (length p \<le> length s \<and> drop (length s - length p) s = p)"

fun str_includes :: "string \<Rightarrow> string \<Rightarrow> bool" where
  "str_includes [] p = (p = [])"
| "str_includes (c # cs) p = (startsWith (c # cs) p \<or> str_includes cs p)"

text \<open>\<^verbatim>\<open>toLowerCase\<close>: the letters A to Z, and the capital letters of U+00C0 to U+00DE
  (U+00D7, the multiplication sign, is not one), move up by 32.\<close>

definition lower_char :: "char \<Rightarrow> char" where
  "lower_char c =
     (let n = (of_char c :: nat)
      in if (65 \<le> n \<and> n \<le> 90) \<or> (192 \<le> n \<and> n \<le> 222 \<and> n \<noteq> 215)
         then char_of (n + 32) else c)"

definition toLowerCase :: "string \<Rightarrow> string" where
  "toLowerCase s = map lower_char s"

text \<open>\<^verbatim>\<open>trim\<close> removes white space and line terminators from both ends: tab, line
  feed, vertical tab, form feed, carriage return, space and the no-break space.\<close>

definition is_space :: "char \<Rightarrow> bool" where
  "is_space c = ((of_char c :: nat) \<in> {9, 10, 11, 12, 13, 32, 160})"

definition trim :: "string \<Rightarrow> string" where
  "trim s = rev (dropWhile is_space (rev (dropWhile is_space s)))"

definition newline :: char where
  "newline = CHR 0x0A"

text \<open>\<^verbatim>\<open>buffer.indexOf('\n')\<close>: the position of the first line feed, \<open>None\<close> for the
  program's \<open>-1\<close>.\<close>

fun indexOf_newline :: "string \<Rightarrow> nat option" where
  "indexOf_newline [] = None"
| "indexOf_newline (c # cs) =
     (if c = newline then Some 0 else map_option Suc (indexOf_newline cs))"

text \<open>
  \<^verbatim>\<open>String(v)\<close>, which JavaScript applies when a value is used as a property key, inside
  a template literal or as the right operand of \<^verbatim>\<open>+=\<close> on a string. \<open>None\<close> is the
  \<^verbatim>\<open>TypeError\<close> of an object that has a member \<^verbatim>\<open>toString\<close> of its own: a parsed member
  is never callable, and the inherited \<^verbatim>\<open>valueOf\<close> returns the object. An array joins its
  elements with commas, \<^verbatim>\<open>null\<close> and \<^verbatim>\<open>undefined\<close> giving the empty text.
\<close>

fun join_comma :: "string list \<Rightarrow> string" where
  "join_comma [] = []"
| "join_comma [s] = s"
| "join_comma (s # t # ss) = s @ '','' @ join_comma (t # ss)"

fun those_strings :: "string option list \<Rightarrow> string list option" where
  "those_strings [] = Some []"
| "those_strings (None # xs) = None"
| "those_strings (Some s # xs) = map_option ((#) s) (those_strings xs)"

fun to_string :: "jsval \<Rightarrow> string option" where
  "to_string JUndefined = Some ''undefined''"
| "to_string JNull = Some ''null''"
| "to_string (JBool b) = Some (if b then ''true'' else ''false'')"
| "to_string (JNum z s) = Some s"
| "to_string (JStr s) = Some s"
| "to_string (JArr xs) =
     map_option join_comma
       (those_strings (map (\<lambda>x. if x = JNull \<or> x = JUndefined then Some [] else to_string x) xs))"
| "to_string (JObj ps) =
     (if own_property ps ''toString'' = None then Some ''[object Object]'' else None)"

text \<open>
  \<^verbatim>\<open>v.includes(p)\<close> for a truthy \<open>v\<close>: a substring test on a string, a membership test
  on an array; no other value has the method, and calling it throws.
\<close>

fun includes_method :: "jsval \<Rightarrow> string \<Rightarrow> js_error + bool" where
  "includes_method (JStr s) p = Inr (str_includes s p)"
| "includes_method (JArr xs) p = Inr (JStr p \<in> set xs)"
| "includes_method v p = Inl TypeError"

text \<open>
  \<^verbatim>\<open>for (const x of v)\<close> for a truthy \<open>v\<close>: the elements of an array, the characters of
  a string; no other value is iterable.
\<close>

fun iterate :: "jsval \<Rightarrow> js_error + jsval list" where
  "iterate (JArr xs) = Inr xs"
| "iterate (JStr s) = Inr (map (\<lambda>c. JStr [c]) s)"
| "iterate v = Inl TypeError"

section \<open>The page and the program's variables\<close>

text \<open>
  The three values \<^verbatim>\<open>setAgentStatus\<close> is called with: \<^verbatim>\<open>'waiting'\<close>, \<^verbatim>\<open>'active'\<close>,
  \<^verbatim>\<open>'completed'\<close>. They are also the three classes of an agent card.
\<close>

datatype status = Waiting | Active | Completed

text \<open>
  What \<^verbatim>\<open>reportContent.innerHTML\<close> holds: one of the three fixed placeholders (the
  initial one, "Starting analysis..." and "Processing..."), the error box with
  \<^verbatim>\<open>Error: ${error.message}\<close>, or the rendered report.
\<close>

datatype report_display =
    InitialPlaceholder
  | StartingPlaceholder
  | ProcessingPlaceholder
  | ErrorBox js_error
  | ReportHtml string

text \<open>
  The module's variables and the part of the page it writes. \<open>cardClass\<close> is the page's
  agent cards: \<open>cardClass s a = Some c\<close> when the element \<^verbatim>\<open>agent-<a>\<close> exists and has the
  status class \<open>c\<close>, \<open>None\<close> when \<^verbatim>\<open>getElementById\<close> finds nothing. The program creates and
  removes no card, so the domain of \<open>cardClass\<close> never changes. The text of a card's
  \<^verbatim>\<open>.agent-status\<close> line is a function of the card and its class and is left out.
  \<open>abortController\<close> is \<open>None\<close> for \<^verbatim>\<open>null\<close>, otherwise whether its signal is aborted.
\<close>

record ui =
  agentStatuses :: "string \<Rightarrow> status option"
  cardClass :: "string \<Rightarrow> status option"
  fullReport :: string
  pdfFilePath :: jsval
  currentSessionId :: jsval
  abortController :: "bool option"
  uploadedFile :: "(string \<times> string) option"
  input_value :: string
  reportContent :: report_display
  analyzeBtn_disabled :: bool
  resetBtn_disabled :: bool
  downloadBtn_disabled :: bool
  balloons :: bool

text \<open>
  \<^verbatim>\<open>agentStatuses[k] = v\<close>. \<^verbatim>\<open>agentStatuses\<close> is a plain object, so an assignment to the
  key \<^verbatim>\<open>__proto__\<close> with a string value changes nothing. A read \<^verbatim>\<open>agentStatuses[k]\<close> is
  \<open>agentStatuses s k\<close>: the program only compares it with \<^verbatim>\<open>'active'\<close> and
  \<^verbatim>\<open>'completed'\<close>, and what a key inherits from \<^verbatim>\<open>Object.prototype\<close> equals neither, like
  \<^verbatim>\<open>undefined\<close>.
\<close>

definition put_status :: "string \<Rightarrow> status \<Rightarrow> (string \<Rightarrow> status option) \<Rightarrow> (string \<Rightarrow> status option)" where
  "put_status k v m = (if k = ''__proto__'' then m else m(k \<mapsto> v))"

definition setAgentStatus :: "string \<Rightarrow> status \<Rightarrow> ui \<Rightarrow> ui" where
  "setAgentStatus agentId status s =
     (if cardClass s agentId = None then s
      else s\<lparr>cardClass := (cardClass s)(agentId \<mapsto> status),
             agentStatuses := put_status agentId status (agentStatuses s)\<rparr>)"

text \<open>The pair of statements \<^verbatim>\<open>setAgentStatus(a, v); agentStatuses[a] = v;\<close> that the
  program writes at each status change.\<close>

definition set_and_store :: "string \<Rightarrow> status \<Rightarrow> ui \<Rightarrow> ui" where
  "set_and_store agentId status s =
     (let s1 = setAgentStatus agentId status s
      in s1\<lparr>agentStatuses := put_status agentId status (agentStatuses s1)\<rparr>)"

definition AGENT_MAPPING :: "(string \<times> string) list" where
  "AGENT_MAPPING =
     [(''threat_model_orchestrator'', ''orchestrator''),
      (''architecture_parser_agent'', ''parser''),
      (''threat_modeler_agent'', ''modeler''),
      (''report_builder_agent'', ''builder''),
      (''report_verifier_agent'', ''verifier'')]"

definition AGENT_SEQUENCE :: "string list" where
  "AGENT_SEQUENCE = [''orchestrator'', ''parser'', ''modeler'', ''builder'', ''verifier'']"

definition resetAllAgents :: "ui \<Rightarrow> ui" where
  "resetAllAgents s =
     fold (\<lambda>agentId. set_and_store agentId Waiting)
       [''orchestrator'', ''parser'', ''modeler'', ''builder'', ''verifier''] s"

section \<open>Statements that may throw\<close>

text \<open>
  A statement changes the state and either completes or throws; what it changed before
  it threw stays changed. The state of the program's statements is the record
  \<^typ>\<open>ui\<close>.
\<close>

datatype completion = Normal | Throw js_error

type_synonym 's stmt = "'s \<Rightarrow> completion \<times> 's"

definition skip :: "'s stmt" where
  "skip s = (Normal, s)"

definition andThen :: "'s stmt \<Rightarrow> 's stmt \<Rightarrow> 's stmt" where
  "andThen f g s = (case f s of (Normal, s') \<Rightarrow> g s' | (Throw e, s') \<Rightarrow> (Throw e, s'))"

text \<open>Evaluate an expression, which may throw, and go on with its value.\<close>

definition bind_val :: "js_error + 'a \<Rightarrow> ('a \<Rightarrow> 's stmt) \<Rightarrow> 's stmt" where
  "bind_val r f s = (case r of Inl e \<Rightarrow> (Throw e, s) | Inr v \<Rightarrow> f v s)"

text \<open>\<^verbatim>\<open>for (const x of xs) { f(x) }\<close>.\<close>

fun for_each :: "'a list \<Rightarrow> ('a \<Rightarrow> 's stmt) \<Rightarrow> 's stmt" where
  "for_each [] f s = (Normal, s)"
| "for_each (x # xs) f s =
     (case f x s of (Normal, s') \<Rightarrow> for_each xs f s' | (Throw e, s') \<Rightarrow> (Throw e, s'))"

text \<open>\<^verbatim>\<open>try { body } catch (e) { handler(e) }\<close>.\<close>

definition try_catch :: "'s stmt \<Rightarrow> (js_error \<Rightarrow> 's stmt) \<Rightarrow> 's stmt" where
  "try_catch body handler s =
     (case body s of (Normal, s') \<Rightarrow> (Normal, s') | (Throw e, s') \<Rightarrow> handler e s')"

section \<open>processStreamEvent\<close>

subsection \<open>Which agent an event speaks of\<close>

text \<open>
  \<^verbatim>\<open>AGENT_MAPPING[event.author]\<close>. The read turns the author into a property key and
  looks it up in a plain object, so besides the five entries it finds what every object
  inherits from \<^verbatim>\<open>Object.prototype\<close>. Such a value is truthy and is not a string; the
  program uses it as \<^verbatim>\<open>agentId\<close> only inside a template literal, as a key of
  \<^verbatim>\<open>agentStatuses\<close> and as the argument of \<^verbatim>\<open>AGENT_SEQUENCE.indexOf\<close>, where it behaves as
  its text \<open>native_text\<close> (the text of a built-in function is the engine's; this is the
  common one, and it is no element of \<^verbatim>\<open>AGENT_SEQUENCE\<close>).
\<close>

definition Object_prototype_keys :: "string list" where
  "Object_prototype_keys =
     [''constructor'', ''__defineGetter__'', ''__defineSetter__'', ''hasOwnProperty'',
      ''__lookupGetter__'', ''__lookupSetter__'', ''isPrototypeOf'', ''propertyIsEnumerable'',
      ''toString'', ''valueOf'', ''__proto__'', ''toLocaleString'']"

definition native_text :: "string \<Rightarrow> string" where
  "native_text k =
     (if k = ''__proto__'' then ''[object Object]''
      else ''function '' @ (if k = ''constructor'' then ''Object'' else k) @ ''() { [native code] }'')"

definition AGENT_MAPPING_get :: "string \<Rightarrow> string option" where
  "AGENT_MAPPING_get k =
     (case map_of AGENT_MAPPING k of
        Some agentId \<Rightarrow> Some agentId
      | None \<Rightarrow> if k \<in> set Object_prototype_keys then Some (native_text k) else None)"

text \<open>The chain of substring tests on the lower-cased author; the last branch is the
  lower-cased author itself.\<close>

definition fuzzy_agent :: "string \<Rightarrow> string" where
  "fuzzy_agent authorLower =
     (if str_includes authorLower ''parser'' \<or> str_includes authorLower ''architecture''
      then ''parser''
      else if str_includes authorLower ''modeler'' \<or>
              (str_includes authorLower ''threat'' \<and> \<not> str_includes authorLower ''orchestr'')
      then ''modeler''
      else if str_includes authorLower ''builder'' \<or> str_includes authorLower ''content'' \<or>
              (str_includes authorLower ''report'' \<and> \<not> str_includes authorLower ''verif'')
      then ''builder''
      else if str_includes authorLower ''verifier'' \<or> str_includes authorLower ''verification'' \<or>
              str_includes authorLower ''escalation''
      then ''verifier''
      else if str_includes authorLower ''orchestrator'' \<or> str_includes authorLower ''orchestrat''
      then ''orchestrator''
      else authorLower)"

text \<open>
  Lines 373 to 391, for a truthy author. A value that is no string has no method
  \<^verbatim>\<open>toLowerCase\<close>: when the mapping does not know it, the call throws.
\<close>

definition resolve_agent :: "jsval \<Rightarrow> js_error + string" where
  "resolve_agent author =
     (case to_string author of
        None \<Rightarrow> Inl TypeError
      | Some key \<Rightarrow>
          (case AGENT_MAPPING_get key of
             Some agentId \<Rightarrow> Inr agentId
           | None \<Rightarrow>
               (case author of
                  JStr a \<Rightarrow> Inr (fuzzy_agent (toLowerCase a))
                | _ \<Rightarrow> Inl TypeError)))"

subsection \<open>The status blocks\<close>

text \<open>\<^verbatim>\<open>event.finishReason === 'STOP' || ... === 'DONE' || ... === 'MAX_TOKENS'\<close>.\<close>

definition is_finish :: "jsval \<Rightarrow> bool" where
  "is_finish r = (r = JStr ''STOP'' \<or> r = JStr ''DONE'' \<or> r = JStr ''MAX_TOKENS'')"

text \<open>\<^verbatim>\<open>AGENT_SEQUENCE.indexOf(agentId)\<close>, \<open>-1\<close> when absent.\<close>

fun indexOf :: "string list \<Rightarrow> string \<Rightarrow> int" where
  "indexOf [] a = -1"
| "indexOf (x # xs) a = (if x = a then 0 else (let i = indexOf xs a in if i < 0 then -1 else i + 1))"

text \<open>Lines 400 to 410: the next agent of the sequence becomes active unless it is
  active or completed.\<close>

definition promote_next :: "string \<Rightarrow> ui \<Rightarrow> ui" where
  "promote_next agentId s =
     (let currentIndex = indexOf AGENT_SEQUENCE agentId
      in if 0 \<le> currentIndex \<and> currentIndex < int (length AGENT_SEQUENCE) - 1
         then (let nextAgentId = AGENT_SEQUENCE ! nat (currentIndex + 1)
               in if agentStatuses s nextAgentId \<noteq> Some Completed \<and>
                     agentStatuses s nextAgentId \<noteq> Some Active
                  then set_and_store nextAgentId Active s else s)
         else s)"

text \<open>Lines 394 to 417, entered when the agent has a card.\<close>

definition update_agent :: "string \<Rightarrow> jsval \<Rightarrow> ui \<Rightarrow> ui" where
  "update_agent agentId finishReason s =
     (if is_finish finishReason
      then promote_next agentId (set_and_store agentId Completed s)
      else if agentStatuses s agentId \<noteq> Some Active \<and> agentStatuses s agentId \<noteq> Some Completed
           then set_and_store agentId Active s else s)"

text \<open>Lines 372 to 419.\<close>

definition author_block :: "jsval \<Rightarrow> ui stmt" where
  "author_block event =
     bind_val (get_prop event ''author'') (\<lambda>author.
       if truthy author
       then bind_val (resolve_agent author) (\<lambda>agentId s.
              if agentId \<noteq> [] \<and> cardClass s agentId \<noteq> None
              then bind_val (get_prop event ''finishReason'')
                     (\<lambda>finishReason s'. (Normal, update_agent agentId finishReason s')) s
              else (Normal, s))
       else skip)"

text \<open>The builder becomes active unless it is active or completed (lines 424 to 427 and
  435 to 438).\<close>

definition promote_builder :: "ui \<Rightarrow> ui" where
  "promote_builder s =
     (if agentStatuses s ''builder'' \<noteq> Some Active \<and> agentStatuses s ''builder'' \<noteq> Some Completed
      then set_and_store ''builder'' Active s else s)"

text \<open>\<^verbatim>\<open>v.includes(p) || v.includes(q)\<close>: the second call is made when the first gives
  false.\<close>

definition includes_either :: "jsval \<Rightarrow> string \<Rightarrow> string \<Rightarrow> js_error + bool" where
  "includes_either v p q =
     (case includes_method v p of
        Inl e \<Rightarrow> Inl e
      | Inr b \<Rightarrow> if b then Inr True else includes_method v q)"

text \<open>Lines 421 to 428.\<close>

definition verification_loop_block :: "jsval \<Rightarrow> ui stmt" where
  "verification_loop_block event =
     bind_val (get_prop event ''author'') (\<lambda>author.
       if truthy author
       then bind_val (includes_either author ''verification_loop'' ''verification-loop'')
              (\<lambda>found s. (Normal, if found then promote_builder s else s))
       else skip)"

text \<open>\<^verbatim>\<open>event.actions && event.actions.toolCalls\<close>, then the loop over it.\<close>

definition with_toolCalls :: "jsval \<Rightarrow> (jsval \<Rightarrow> ui stmt) \<Rightarrow> ui stmt" where
  "with_toolCalls event body =
     bind_val (get_prop event ''actions'') (\<lambda>actions.
       if truthy actions
       then bind_val (get_prop actions ''toolCalls'') (\<lambda>toolCalls.
              if truthy toolCalls
              then bind_val (iterate toolCalls) (\<lambda>xs. for_each xs body)
              else skip)
       else skip)"

text \<open>Lines 430 to 441.\<close>

definition toolCall_status :: "jsval \<Rightarrow> ui stmt" where
  "toolCall_status toolCall =
     bind_val (get_prop toolCall ''name'') (\<lambda>name.
       if truthy name
       then bind_val (includes_either name ''write_file'' ''convert_markdown'')
              (\<lambda>found s. (Normal, if found then promote_builder s else s))
       else skip)"

definition toolCalls_status_block :: "jsval \<Rightarrow> ui stmt" where
  "toolCalls_status_block event = with_toolCalls event toolCall_status"

subsection \<open>The artifact pointer and the report buffer\<close>

text \<open>
  \<^verbatim>\<open>Object.entries(artifacts)\<close> of an object: its keys in the order they were first
  written, each with its last value. (JavaScript lists keys that are array indices
  first; no such key ends in \<^verbatim>\<open>.pdf\<close>, and the loop does nothing for the others.) A
  number and a boolean have no entries; the entries of a string and of an array have
  array indices as keys, for which the loop does nothing: they are left out.
\<close>

fun entries_of :: "(string \<times> jsval) list \<Rightarrow> (string \<times> jsval) list" where
  "entries_of [] = []"
| "entries_of ((k, v) # ps) =
     (k, case own_property ps k of Some v' \<Rightarrow> v' | None \<Rightarrow> v)
       # entries_of (filter (\<lambda>p. fst p \<noteq> k) ps)"

fun Object_entries :: "jsval \<Rightarrow> (string \<times> jsval) list" where
  "Object_entries (JObj ps) = entries_of ps"
| "Object_entries v = []"

text \<open>Lines 446 to 452, one turn of the loop.\<close>

definition artifact_entry :: "string \<times> jsval \<Rightarrow> ui stmt" where
  "artifact_entry entry =
     (case entry of (filename, artifact) \<Rightarrow>
        if endsWith filename ''.pdf''
        then bind_val (get_prop artifact ''filePath'') (\<lambda>filePath s.
               (Normal, s\<lparr>pdfFilePath := (if truthy filePath then filePath else JStr filename)\<rparr>))
        else skip)"

text \<open>Lines 443 to 453.\<close>

definition artifact_block :: "jsval \<Rightarrow> ui stmt" where
  "artifact_block event =
     bind_val (get_prop event ''actions'') (\<lambda>actions.
       if truthy actions
       then bind_val (get_prop actions ''artifactDelta'') (\<lambda>artifacts.
              if truthy artifacts
              then for_each (Object_entries artifacts) artifact_entry
              else skip)
       else skip)"

text \<open>Lines 464 to 468: \<^verbatim>\<open>text += part.text\<close> for every part with a truthy text.\<close>

fun parts_text :: "jsval list \<Rightarrow> string \<Rightarrow> js_error + string" where
  "parts_text [] text = Inr text"
| "parts_text (part # parts) text =
     (case get_prop part ''text'' of
        Inl e \<Rightarrow> Inl e
      | Inr t \<Rightarrow>
          if truthy t
          then (case to_string t of
                  None \<Rightarrow> Inl TypeError
                | Some t' \<Rightarrow> parts_text parts (text @ t'))
          else parts_text parts text)"

text \<open>Lines 457 to 471: the value of \<^verbatim>\<open>text\<close> after the three shapes of a truthy
  content.\<close>

definition content_text :: "jsval \<Rightarrow> js_error + jsval" where
  "content_text content =
     (case content of
        JStr c \<Rightarrow> Inr (JStr c)
      | _ \<Rightarrow>
          (case get_prop content ''parts'' of
             Inl e \<Rightarrow> Inl e
           | Inr parts \<Rightarrow>
               if truthy parts
               then (case iterate parts of
                       Inl e \<Rightarrow> Inl e
                     | Inr xs \<Rightarrow> map_sum id JStr (parts_text xs []))
               else (case get_prop content ''text'' of
                       Inl e \<Rightarrow> Inl e
                     | Inr t \<Rightarrow> if truthy t then Inr t else Inr (JStr []))))"

text \<open>Lines 455 to 477. \<^verbatim>\<open>fullReport += text\<close> turns a text that is no string into
  one.\<close>

definition content_block :: "jsval \<Rightarrow> ui stmt" where
  "content_block event =
     bind_val (get_prop event ''content'') (\<lambda>content.
       if truthy content
       then bind_val (content_text content) (\<lambda>text.
              if truthy text
              then bind_val (case to_string text of None \<Rightarrow> Inl TypeError | Some t \<Rightarrow> Inr t)
                     (\<lambda>t s. (Normal, s\<lparr>fullReport := fullReport s @ t\<rparr>))
              else skip)
       else skip)"

text \<open>
  Lines 482 to 490, one turn of the loop. \<open>JSON_parse\<close> is the platform's
  \<^verbatim>\<open>JSON.parse\<close>, \<open>None\<close> when it throws its \<^verbatim>\<open>SyntaxError\<close>. A truthy
  \<^verbatim>\<open>file_path\<close> that is no string has no method \<^verbatim>\<open>endsWith\<close>.
\<close>

definition toolCall_pdf :: "(string \<Rightarrow> jsval option) \<Rightarrow> jsval \<Rightarrow> ui stmt" where
  "toolCall_pdf JSON_parse toolCall =
     bind_val (get_prop toolCall ''name'') (\<lambda>name.
       if name = JStr ''convert_markdown_to_pdf''
       then bind_val (get_prop toolCall ''response'') (\<lambda>r.
              if truthy r
              then bind_val (case r of
                               JStr text \<Rightarrow>
                                 (case JSON_parse text of
                                    None \<Rightarrow> Inl SyntaxError
                                  | Some v \<Rightarrow> Inr v)
                             | _ \<Rightarrow> Inr r)
                     (\<lambda>response.
                        bind_val (get_prop response ''file_path'') (\<lambda>file_path.
                          if truthy file_path
                          then (case file_path of
                                  JStr p \<Rightarrow>
                                    (\<lambda>s. (Normal, if endsWith p ''.pdf''
                                                   then s\<lparr>pdfFilePath := file_path\<rparr> else s))
                                | _ \<Rightarrow> (\<lambda>s. (Throw TypeError, s)))
                          else skip))
              else skip)
       else skip)"

text \<open>Lines 479 to 492.\<close>

definition toolCalls_pdf_block :: "(string \<Rightarrow> jsval option) \<Rightarrow> jsval \<Rightarrow> ui stmt" where
  "toolCalls_pdf_block JSON_parse event = with_toolCalls event (toolCall_pdf JSON_parse)"

text \<open>The whole function, lines 370 to 493: the six blocks in the order of the source.\<close>

definition processStreamEvent :: "(string \<Rightarrow> jsval option) \<Rightarrow> jsval \<Rightarrow> ui stmt" where
  "processStreamEvent JSON_parse event =
     andThen (author_block event)
    (andThen (verification_loop_block event)
    (andThen (toolCalls_status_block event)
    (andThen (artifact_block event)
    (andThen (content_block event)
             (toolCalls_pdf_block JSON_parse event)))))"

section \<open>updateReportDisplay\<close>

text \<open>
  The seven \<^verbatim>\<open>replace\<close> calls of lines 507 to 513, each with the flags \<^verbatim>\<open>gim\<close>. With
  \<^verbatim>\<open>m\<close>, \<^verbatim>\<open>^\<close> matches at the start of the text and after every line terminator and
  \<^verbatim>\<open>$\<close> before one and at the end; \<^verbatim>\<open>.\<close> matches any character but a line terminator
  (line feed and carriage return, on this alphabet); \<^verbatim>\<open>i\<close> changes nothing, the patterns
  having no letter.
\<close>

definition is_line_terminator :: "char \<Rightarrow> bool" where
  "is_line_terminator c = (c = newline \<or> c = CHR 0x0D)"

text \<open>\<open>map_lines f cur s\<close> applies \<open>f\<close> to every line of \<open>cur @ s\<close> and keeps the
  terminators; \<open>cur\<close> is the part of the current line already read.\<close>

fun map_lines :: "(string \<Rightarrow> string) \<Rightarrow> string \<Rightarrow> string \<Rightarrow> string" where
  "map_lines f cur [] = f cur"
| "map_lines f cur (c # cs) =
     (if is_line_terminator c then f cur @ [c] @ map_lines f [] cs
      else map_lines f (cur @ [c]) cs)"

text \<open>\<^verbatim>\<open>html.replace(/^# (.*$)/gim, '<h1>$1</h1>')\<close> and its two siblings: a line that
  starts with the prefix becomes the rest of the line inside the tag.\<close>

definition replace_heading :: "string \<Rightarrow> string \<Rightarrow> string \<Rightarrow> string \<Rightarrow> string" where
  "replace_heading prefix tag_open tag_close html =
     map_lines (\<lambda>line. if startsWith line prefix
                        then tag_open @ drop (length prefix) line @ tag_close else line) [] html"

text \<open>
  \<open>find_close d t\<close>: the lazy \<^verbatim>\<open>(.*?)\<close> followed by the closing delimiter \<open>d\<close>, tried on
  \<open>t\<close>: the shortest run of characters, none a line terminator, after which \<open>d\<close> stands;
  it gives the run and what follows the delimiter.
\<close>

fun find_close :: "string \<Rightarrow> string \<Rightarrow> (string \<times> string) option" where
  "find_close d [] = (if startsWith [] d then Some ([], []) else None)"
| "find_close d (c # cs) =
     (if startsWith (c # cs) d then Some ([], drop (length d) (c # cs))
      else if is_line_terminator c then None
      else map_option (\<lambda>(body, rest). (c # body, rest)) (find_close d cs))"

lemma find_close_length: "find_close d t = Some (body, rest) \<Longrightarrow> length rest \<le> length t"
proof (induction t arbitrary: body)
  case Nil
  then show ?case by (simp split: if_splits)
next
  case (Cons c cs)
  show ?case
  proof (cases "startsWith (c # cs) d")
    case True
    with Cons.prems show ?thesis by auto
  next
    case False
    with Cons.prems obtain b where "find_close d cs = Some (b, rest)"
      by (auto split: if_splits)
    from Cons.IH [OF this] show ?thesis by simp
  qed
qed

text \<open>
  \<^verbatim>\<open>html.replace(/\*\*(.*?)\*\*/gim, '<strong>$1</strong>')\<close> and its two siblings, for
  the delimiters \<^verbatim>\<open>**\<close>, \<^verbatim>\<open>*\<close> and the backquote: the text is scanned from the left;
  where the delimiter stands and closes later on the same line, the match is replaced
  and the scan goes on behind it; elsewhere the character is kept.
\<close>

function replace_delimited :: "string \<Rightarrow> string \<Rightarrow> string \<Rightarrow> string \<Rightarrow> string" where
  "replace_delimited d tag_open tag_close [] = []"
| "replace_delimited d tag_open tag_close (c # cs) =
     (if d \<noteq> [] \<and> startsWith (c # cs) d
      then (case find_close d (drop (length d) (c # cs)) of
              Some (body, rest) \<Rightarrow> tag_open @ body @ tag_close @ replace_delimited d tag_open tag_close rest
            | None \<Rightarrow> c # replace_delimited d tag_open tag_close cs)
      else c # replace_delimited d tag_open tag_close cs)"
  by pat_completeness auto
termination
  by (relation "measure (\<lambda>(d, tag_open, tag_close, s). length s)")
     (auto dest!: find_close_length simp: neq_Nil_conv)

text \<open>\<^verbatim>\<open>html.replace(/\n\n/gim, '</p><p>')\<close>.\<close>

fun replace_blank_lines :: "string \<Rightarrow> string" where
  "replace_blank_lines (a # b # cs) =
     (if a = newline \<and> b = newline then ''</p><p>'' @ replace_blank_lines cs
      else a # replace_blank_lines (b # cs))"
| "replace_blank_lines cs = cs"

text \<open>Lines 504 to 514.\<close>

definition markdown_to_html :: "string \<Rightarrow> string" where
  "markdown_to_html report =
     (let html = report;
          html = replace_heading ''# '' ''<h1>'' ''</h1>'' html;
          html = replace_heading ''## '' ''<h2>'' ''</h2>'' html;
          html = replace_heading ''### '' ''<h3>'' ''</h3>'' html;
          html = replace_delimited ''**'' ''<strong>'' ''</strong>'' html;
          html = replace_delimited ''*'' ''<em>'' ''</em>'' html;
          html = replace_delimited ''`'' ''<code>'' ''</code>'' html;
          html = replace_blank_lines html
      in ''<p>'' @ html @ ''</p>'')"

text \<open>Lines 496 to 520 (the scroll position is left out).\<close>

definition updateReportDisplay :: "ui \<Rightarrow> ui" where
  "updateReportDisplay s =
     (if trim (fullReport s) = [] then s\<lparr>reportContent := ProcessingPlaceholder\<rparr>
      else s\<lparr>reportContent := ReportHtml (markdown_to_html (fullReport s))\<rparr>)"

section \<open>streamQuery\<close>

subsection \<open>The decoder\<close>

text \<open>
  \<^verbatim>\<open>decoder.decode(value, { stream: true })\<close>. The platform's \<^verbatim>\<open>TextDecoder\<close> handles
  the bytes of a chunk one after the other and keeps its state (the bytes of a character
  not yet complete) from one call to the next. It is a parameter of the model: a step
  function \<open>decode_step\<close> from the decoder's state and a byte to the new state and the
  text that byte completes.
\<close>

fun decode_chunk :: "('d \<Rightarrow> 'b \<Rightarrow> 'd \<times> string) \<Rightarrow> 'd \<Rightarrow> 'b list \<Rightarrow> 'd \<times> string" where
  "decode_chunk decode_step d [] = (d, [])"
| "decode_chunk decode_step d (b # bs) =
     (case decode_step d b of (d1, t1) \<Rightarrow>
        (case decode_chunk decode_step d1 bs of (d2, t2) \<Rightarrow> (d2, t1 @ t2)))"

text \<open>
  Lines 345 to 357, for one trimmed line. \<open>on_event\<close> is the statement run on a decoded
  event: in the program it is \<open>processStreamEvent\<close>. The \<^verbatim>\<open>catch\<close> has an empty body.
\<close>

definition handle_line :: "(string \<Rightarrow> jsval option) \<Rightarrow> (jsval \<Rightarrow> 's stmt) \<Rightarrow> string \<Rightarrow> 's stmt" where
  "handle_line JSON_parse on_event line =
     (if startsWith line ''data: ''
      then try_catch
             (let jsonStr = drop 6 line
              in if jsonStr \<noteq> []
                 then bind_val (case JSON_parse jsonStr of
                                  None \<Rightarrow> Inl SyntaxError
                                | Some data \<Rightarrow> Inr data) on_event
                 else skip)
             (\<lambda>e. skip)
      else skip)"

lemma indexOf_newline_less: "indexOf_newline buffer = Some i \<Longrightarrow> i < length buffer"
  by (induction buffer arbitrary: i) (auto split: if_splits)

text \<open>Lines 340 to 358: the loop that takes the complete lines off the buffer. It
  gives the buffer that is left.\<close>

function process_lines ::
  "(string \<Rightarrow> jsval option) \<Rightarrow> (jsval \<Rightarrow> 's stmt) \<Rightarrow> string \<Rightarrow> 's \<Rightarrow> completion \<times> string \<times> 's" where
  "process_lines JSON_parse on_event buffer s =
     (case indexOf_newline buffer of
        None \<Rightarrow> (Normal, buffer, s)
      | Some newlineIndex \<Rightarrow>
          (let line = trim (take newlineIndex buffer);
               buffer' = drop (newlineIndex + 1) buffer
           in case handle_line JSON_parse on_event line s of
                (Normal, s') \<Rightarrow> process_lines JSON_parse on_event buffer' s'
              | (Throw e, s') \<Rightarrow> (Throw e, buffer', s')))"
  by pat_completeness auto
termination
  by (relation "measure (\<lambda>(JSON_parse, on_event, buffer, s). length buffer)")
     (auto dest: indexOf_newline_less)

declare process_lines.simps [simp del]

text \<open>Lines 312 to 359 while \<^verbatim>\<open>done\<close> is false: one turn for every chunk read. It gives
  the decoder's state and the buffer after the last chunk.\<close>

fun read_chunks ::
  "('d \<Rightarrow> 'b \<Rightarrow> 'd \<times> string) \<Rightarrow> (string \<Rightarrow> jsval option) \<Rightarrow> (jsval \<Rightarrow> 's stmt) \<Rightarrow>
     'b list list \<Rightarrow> 'd \<Rightarrow> string \<Rightarrow> 's \<Rightarrow> completion \<times> 'd \<times> string \<times> 's" where
  "read_chunks decode_step JSON_parse on_event [] d buffer s = (Normal, d, buffer, s)"
| "read_chunks decode_step JSON_parse on_event (chunk # chunks) d buffer s =
     (case decode_chunk decode_step d chunk of (d', text) \<Rightarrow>
        (case process_lines JSON_parse on_event (buffer @ text) s of
           (Normal, buffer', s') \<Rightarrow> read_chunks decode_step JSON_parse on_event chunks d' buffer' s'
         | (Throw e, buffer', s') \<Rightarrow> (Throw e, d', buffer', s')))"

text \<open>
  The events handed to \<open>on_event\<close>, in order, while the chunks are read: the loop run
  with a statement that only records its argument.
\<close>

definition decoded_events ::
  "('d \<Rightarrow> 'b \<Rightarrow> 'd \<times> string) \<Rightarrow> 'd \<Rightarrow> (string \<Rightarrow> jsval option) \<Rightarrow> 'b list list \<Rightarrow> jsval list" where
  "decoded_events decode_step d0 JSON_parse chunks =
     snd (snd (snd (read_chunks decode_step JSON_parse (\<lambda>event events. (Normal, events @ [event]))
       chunks d0 [] [])))"

subsection \<open>The end of the stream\<close>

text \<open>Lines 317 to 321.\<close>

definition complete_active :: "ui \<Rightarrow> ui" where
  "complete_active s =
     fold (\<lambda>agentId s. if agentStatuses s agentId = Some Active \<or> agentStatuses s agentId = Some Completed
                        then setAgentStatus agentId Completed s else s)
       [''orchestrator'', ''parser'', ''modeler'', ''builder'', ''verifier''] s"

text \<open>Lines 316 to 332: \<^verbatim>\<open>done\<close> is true. \<open>balloons\<close> says whether the celebration has
  filled the balloon container.\<close>

definition finish_stream :: "ui \<Rightarrow> ui" where
  "finish_stream s =
     (updateReportDisplay (complete_active s))
       \<lparr>analyzeBtn_disabled := False, resetBtn_disabled := False, downloadBtn_disabled := False,
        balloons := True\<rparr>"

subsection \<open>Reset, run start and cancellation\<close>

text \<open>\<^verbatim>\<open>resetAnalysis\<close>, lines 622 to 645.\<close>

definition resetAnalysis :: "ui \<Rightarrow> ui" where
  "resetAnalysis s =
     (let s = (case abortController s of None \<Rightarrow> s | Some a \<Rightarrow> s\<lparr>abortController := Some True\<rparr>);
          s = s\<lparr>currentSessionId := JNull, fullReport := [], pdfFilePath := JNull,
                agentStatuses := (\<lambda>k. None), input_value := [], uploadedFile := None,
                balloons := False, reportContent := InitialPlaceholder\<rparr>;
          s = resetAllAgents s
      in s\<lparr>analyzeBtn_disabled := False, resetBtn_disabled := True, downloadBtn_disabled := True\<rparr>)"

text \<open>
  \<^verbatim>\<open>startAnalysis\<close> from "Reset UI" to the new \<^verbatim>\<open>AbortController\<close>, lines 177 to 189:
  what a run does before its first \<^verbatim>\<open>await\<close>.
\<close>

definition begin_run :: "ui \<Rightarrow> ui" where
  "begin_run s =
     (let s = s\<lparr>fullReport := [], reportContent := StartingPlaceholder\<rparr>;
          s = resetAllAgents s;
          s = s\<lparr>analyzeBtn_disabled := True, resetBtn_disabled := True, downloadBtn_disabled := True\<rparr>
      in s\<lparr>abortController := Some False\<rparr>)"

text \<open>
  How the stream of a run ends: \<^verbatim>\<open>reader.read()\<close> reports \<^verbatim>\<open>done\<close>, or it is rejected.
  The rejection is an \<^verbatim>\<open>AbortError\<close> exactly when \<^verbatim>\<open>abortController.abort()\<close> was called
  on the run's controller, and the program calls it in two places: in \<open>resetAnalysis\<close>
  and at the start of a new run. Both are called by the click listeners of lines 39 and
  40 only, and a button that is disabled dispatches no click. \<open>Clicked c rest\<close> is a click
  on the button \<open>c\<close> while the reader is suspended in \<^verbatim>\<open>await reader.read()\<close>: when the
  listener runs, JavaScript runs it up to its end or its first \<^verbatim>\<open>await\<close> before the
  rejection reaches the reader; when it does not run, or returns before it aborts, the
  stream goes on and ends as \<open>rest\<close> says. The stream was opened with the signal of the
  controller (line 282), so the controller is there when a listener aborts.
\<close>

datatype button = ResetBtn | AnalyzeBtn

datatype stream_end = EndOfStream | ReadFailed js_error | Clicked button stream_end

text \<open>The last \<^verbatim>\<open>await reader.read()\<close> of the loop.\<close>

fun read_end :: "stream_end \<Rightarrow> ui stmt" where
  "read_end EndOfStream s = (Normal, finish_stream s)"
| "read_end (ReadFailed e) s = (Throw e, s)"
| "read_end (Clicked ResetBtn rest) s =
     (if resetBtn_disabled s then read_end rest s else (Throw AbortError, resetAnalysis s))"
| "read_end (Clicked AnalyzeBtn rest) s =
     (if analyzeBtn_disabled s \<or> (trim (input_value s) = [] \<and> uploadedFile s = None)
      then read_end rest s
      else (Throw AbortError, begin_run s))"

text \<open>Lines 312 to 359, the whole \<^verbatim>\<open>while (true)\<close>.\<close>

definition read_loop ::
  "('d \<Rightarrow> 'b \<Rightarrow> 'd \<times> string) \<Rightarrow> 'd \<Rightarrow> (string \<Rightarrow> jsval option) \<Rightarrow>
     'b list list \<Rightarrow> stream_end \<Rightarrow> ui stmt" where
  "read_loop decode_step d0 JSON_parse chunks ending s =
     (case read_chunks decode_step JSON_parse (processStreamEvent JSON_parse) chunks d0 [] s of
        (Normal, d, buffer, s') \<Rightarrow> read_end ending s'
      | (Throw e, d, buffer, s') \<Rightarrow> (Throw e, s'))"

text \<open>
  What \<^verbatim>\<open>fetch\<close> of \<^verbatim>\<open>/api/query\<close> gives: a rejection; a response that is not \<^verbatim>\<open>ok\<close>,
  with the texts of its status and of its body; a response without a body; or a body,
  as the chunks it delivers and the way it ends.
\<close>

datatype 'b query_response =
    QueryRejected js_error
  | QueryNotOk string string
  | QueryNoBody
  | QueryBody "'b list list" stream_end

text \<open>Lines 299 to 309: the response has a body. The orchestrator is set active and the
  report area shows "Processing...".\<close>

definition open_stream :: "ui \<Rightarrow> ui" where
  "open_stream s = (set_and_store ''orchestrator'' Active s)\<lparr>reportContent := ProcessingPlaceholder\<rparr>"

text \<open>\<^verbatim>\<open>streamQuery\<close>, lines 263 to 367. The message parts only travel to the server.\<close>

definition streamQuery ::
  "('d \<Rightarrow> 'b \<Rightarrow> 'd \<times> string) \<Rightarrow> 'd \<Rightarrow> (string \<Rightarrow> jsval option) \<Rightarrow> 'b query_response \<Rightarrow> ui stmt" where
  "streamQuery decode_step d0 JSON_parse response s =
     (case response of
        QueryRejected e \<Rightarrow> (Throw e, s)
      | QueryNotOk status errorText \<Rightarrow>
          (Throw (Error (''Query failed: '' @ status @ '' - '' @ errorText)), s)
      | QueryNoBody \<Rightarrow>
          (Throw (Error ''Response body is null - server may not support streaming''), s)
      | QueryBody chunks ending \<Rightarrow>
          try_catch (read_loop decode_step d0 JSON_parse chunks ending)
            (\<lambda>error. if error = AbortError then skip else (\<lambda>s. (Throw error, s)))
            (open_stream s))"

section \<open>startAnalysis\<close>

text \<open>What \<^verbatim>\<open>fetch\<close> of \<^verbatim>\<open>/api/sessions\<close> gives: a rejection, a response that is not
  \<^verbatim>\<open>ok\<close>, or a body, \<open>None\<close> when \<^verbatim>\<open>response.json()\<close> rejects it.\<close>

datatype session_response =
    SessionRejected js_error
  | SessionNotOk string string
  | SessionBody "jsval option"

text \<open>\<^verbatim>\<open>createSession\<close>, lines 238 to 260; the result is the \<^verbatim>\<open>session_id\<close> of the
  object it returns.\<close>

definition createSession :: "session_response \<Rightarrow> js_error + jsval" where
  "createSession response =
     (case response of
        SessionRejected e \<Rightarrow> Inl e
      | SessionNotOk status errorText \<Rightarrow>
          Inl (Error (''Failed to create session: '' @ status @ '' - '' @ errorText))
      | SessionBody None \<Rightarrow> Inl SyntaxError
      | SessionBody (Some data) \<Rightarrow>
          (case get_prop data ''id'' of
             Inl e \<Rightarrow> Inl e
           | Inr i \<Rightarrow>
               (case (if truthy i then Inr i else get_prop data ''session_id'') of
                  Inl e \<Rightarrow> Inl e
                | Inr sessionId \<Rightarrow>
                    if \<not> truthy sessionId then Inl (Error ''Session ID not found in response'')
                    else Inr sessionId)))"

text \<open>What a run meets outside the program: the two responses, and whether the
  \<^verbatim>\<open>FileReader\<close> of an uploaded file succeeds.\<close>

record 'b run_env =
  session_response :: session_response
  file_readable :: bool
  query_response :: "'b query_response"

text \<open>The \<^verbatim>\<open>try\<close> block of \<^verbatim>\<open>startAnalysis\<close>, lines 192 to 223.\<close>

definition run_body ::
  "('d \<Rightarrow> 'b \<Rightarrow> 'd \<times> string) \<Rightarrow> 'd \<Rightarrow> (string \<Rightarrow> jsval option) \<Rightarrow> 'b run_env \<Rightarrow> ui stmt" where
  "run_body decode_step d0 JSON_parse env =
     bind_val (createSession (session_response env)) (\<lambda>session_id.
       if \<not> truthy session_id
       then (\<lambda>s. (Throw (Error ''Failed to create session: No session ID returned''), s))
       else andThen (\<lambda>s. (Normal, s\<lparr>currentSessionId := session_id\<rparr>))
           (andThen (\<lambda>s. if uploadedFile s \<noteq> None \<and> \<not> file_readable env
                          then (Throw NotAnError, s) else (Normal, s))
                    (streamQuery decode_step d0 JSON_parse (query_response env))))"

text \<open>The \<^verbatim>\<open>catch\<close> block, lines 225 to 234.\<close>

definition run_failed :: "js_error \<Rightarrow> ui stmt" where
  "run_failed error =
     (if error = AbortError then skip
      else (\<lambda>s. (Normal, s\<lparr>reportContent := ErrorBox error,
                               analyzeBtn_disabled := False, resetBtn_disabled := False\<rparr>)))"

text \<open>\<^verbatim>\<open>startAnalysis\<close>, lines 170 to 235.\<close>

definition startAnalysis ::
  "('d \<Rightarrow> 'b \<Rightarrow> 'd \<times> string) \<Rightarrow> 'd \<Rightarrow> (string \<Rightarrow> jsval option) \<Rightarrow> 'b run_env \<Rightarrow> ui stmt" where
  "startAnalysis decode_step d0 JSON_parse env s =
     (let architectureText = trim (input_value s)
      in if architectureText = [] \<and> uploadedFile s = None then (Normal, s)
         else try_catch (run_body decode_step d0 JSON_parse env) run_failed (begin_run s))"

section \<open>The platform functions used in the examples\<close>

text \<open>
  The theorems about all streams hold for every \<open>decode_step\<close> and every \<open>JSON_parse\<close>.
  The examples need a decoder and a parser to run. Their streams are ASCII text, which
  UTF-8 decodes byte by byte to itself.
\<close>

definition ascii_step :: "unit \<Rightarrow> char \<Rightarrow> unit \<times> string" where
  "ascii_step d b = (d, [b])"

text \<open>
  \<^verbatim>\<open>JSON.parse\<close> as a recursive descent over the grammar of JSON. Two things are outside
  the model: an escape \<^verbatim>\<open>\uXXXX\<close> of a code unit above U+00FF, which the alphabet does not
  have (the parser gives \<open>None\<close>), and the text \<^verbatim>\<open>String\<close> gives for a number that is
  not written the way \<^verbatim>\<open>String\<close> writes it: the parser keeps the literal, and \<open>0\<close> for a
  zero. A number counts as zero when all the digits of its integer and fraction parts are
  zeros. The examples use neither.
\<close>

definition dquote :: char where
  "dquote = CHR 0x22"

definition backslash :: char where
  "backslash = CHR 0x5C"

definition json_ws :: "char \<Rightarrow> bool" where
  "json_ws c = (c = CHR '' '' \<or> c = CHR 0x09 \<or> c = CHR 0x0A \<or> c = CHR 0x0D)"

definition skip_ws :: "string \<Rightarrow> string" where
  "skip_ws s = dropWhile json_ws s"

definition is_digit :: "char \<Rightarrow> bool" where
  "is_digit c = (48 \<le> (of_char c :: nat) \<and> (of_char c :: nat) \<le> 57)"

definition hex_digit :: "char \<Rightarrow> nat option" where
  "hex_digit c =
     (let n = (of_char c :: nat)
      in if 48 \<le> n \<and> n \<le> 57 then Some (n - 48)
         else if 65 \<le> n \<and> n \<le> 70 then Some (n - 55)
         else if 97 \<le> n \<and> n \<le> 102 then Some (n - 87)
         else None)"

fun hex4 :: "string \<Rightarrow> nat option" where
  "hex4 (a # b # c # d # r) =
     (case (hex_digit a, hex_digit b, hex_digit c, hex_digit d) of
        (Some w, Some x, Some y, Some z) \<Rightarrow> Some (((w * 16 + x) * 16 + y) * 16 + z)
      | _ \<Rightarrow> None)"
| "hex4 r = None"

definition escaped :: "char \<Rightarrow> char option" where
  "escaped e =
     (if e = dquote then Some dquote
      else if e = backslash then Some backslash
      else if e = CHR ''/'' then Some (CHR ''/'')
      else if e = CHR ''b'' then Some (CHR 0x08)
      else if e = CHR ''f'' then Some (CHR 0x0C)
      else if e = CHR ''n'' then Some (CHR 0x0A)
      else if e = CHR ''r'' then Some (CHR 0x0D)
      else if e = CHR ''t'' then Some (CHR 0x09)
      else None)"

text \<open>The characters of a string after its opening quote, and what follows the closing
  quote.\<close>

fun parse_chars :: "string \<Rightarrow> (string \<times> string) option" where
  "parse_chars [] = None"
| "parse_chars (c # cs) =
     (if c = dquote then Some ([], cs)
      else if c = backslash
      then (case cs of
              [] \<Rightarrow> None
            | e # r \<Rightarrow>
                if e = CHR ''u''
                then (case hex4 r of
                        None \<Rightarrow> None
                      | Some n \<Rightarrow>
                          if n < 256
                          then map_option (\<lambda>(x, rest). (char_of n # x, rest)) (parse_chars (drop 4 r))
                          else None)
                else (case escaped e of
                        None \<Rightarrow> None
                      | Some x \<Rightarrow> map_option (\<lambda>(y, rest). (x # y, rest)) (parse_chars r)))
      else if (of_char c :: nat) < 32 then None
      else map_option (\<lambda>(x, rest). (c # x, rest)) (parse_chars cs))"

text \<open>A number: an optional minus, the integer part (a zero, or digits that do not
  start with a zero), an optional fraction, an optional exponent.\<close>

definition parse_number :: "string \<Rightarrow> (jsval \<times> string) option" where
  "parse_number s =
     (let sign = (if startsWith s ''-'' then ''-'' else []);
          s1 = drop (length sign) s;
          ds = takeWhile is_digit s1;
          s2 = drop (length ds) s1;
          frac = (if startsWith s2 ''.'' then takeWhile is_digit (drop 1 s2) else []);
          has_frac = startsWith s2 ''.'';
          s3 = (if has_frac then drop (1 + length frac) s2 else s2);
          has_exp = (startsWith s3 ''e'' \<or> startsWith s3 ''E'');
          s4 = (if has_exp then drop 1 s3 else s3);
          esign = (if has_exp \<and> (startsWith s4 ''+'' \<or> startsWith s4 ''-'') then take 1 s4 else []);
          ex = (if has_exp then takeWhile is_digit (drop (length esign) s4) else []);
          rest = (if has_exp then drop (length esign + length ex) s4 else s3);
          literal = take (length s - length rest) s;
          zero = list_all (\<lambda>c. c = CHR ''0'') (ds @ frac)
      in if ds = [] \<or> (1 < length ds \<and> startsWith ds ''0'') \<or> (has_frac \<and> frac = []) \<or>
            (has_exp \<and> ex = [])
         then None
         else Some (JNum zero (if zero then ''0'' else literal), rest))"

fun parse_value :: "nat \<Rightarrow> string \<Rightarrow> (jsval \<times> string) option"
  and parse_elements :: "nat \<Rightarrow> string \<Rightarrow> (jsval list \<times> string) option"
  and parse_members :: "nat \<Rightarrow> string \<Rightarrow> ((string \<times> jsval) list \<times> string) option" where
  "parse_value 0 s = None"
| "parse_value (Suc n) s =
     (case skip_ws s of
        [] \<Rightarrow> None
      | c # cs \<Rightarrow>
          if c = CHR ''{''
          then (if startsWith (skip_ws cs) ''}'' then Some (JObj [], drop 1 (skip_ws cs))
                else map_option (\<lambda>(ms, rest). (JObj ms, rest)) (parse_members n cs))
          else if c = CHR ''[''
          then (if startsWith (skip_ws cs) '']'' then Some (JArr [], drop 1 (skip_ws cs))
                else map_option (\<lambda>(vs, rest). (JArr vs, rest)) (parse_elements n cs))
          else if c = dquote
          then map_option (\<lambda>(x, rest). (JStr x, rest)) (parse_chars cs)
          else if startsWith (c # cs) ''true'' then Some (JBool True, drop 4 (c # cs))
          else if startsWith (c # cs) ''false'' then Some (JBool False, drop 5 (c # cs))
          else if startsWith (c # cs) ''null'' then Some (JNull, drop 4 (c # cs))
          else parse_number (c # cs))"
| "parse_elements 0 s = None"
| "parse_elements (Suc n) s =
     (case parse_value n s of
        None \<Rightarrow> None
      | Some (v, r) \<Rightarrow>
          (case skip_ws r of
             [] \<Rightarrow> None
           | c # r' \<Rightarrow>
               if c = CHR '','' then map_option (\<lambda>(vs, rest). (v # vs, rest)) (parse_elements n r')
               else if c = CHR '']'' then Some ([v], r')
               else None))"
| "parse_members 0 s = None"
| "parse_members (Suc n) s =
     (case skip_ws s of
        [] \<Rightarrow> None
      | q # s1 \<Rightarrow>
          if q \<noteq> dquote then None
          else (case parse_chars s1 of
                  None \<Rightarrow> None
                | Some (k, s2) \<Rightarrow>
                    (case skip_ws s2 of
                       [] \<Rightarrow> None
                     | colon # s3 \<Rightarrow>
                         if colon \<noteq> CHR '':'' then None
                         else (case parse_value n s3 of
                                 None \<Rightarrow> None
                               | Some (v, r) \<Rightarrow>
                                   (case skip_ws r of
                                      [] \<Rightarrow> None
                                    | c # r' \<Rightarrow>
                                        if c = CHR '',''
                                        then map_option (\<lambda>(ms, rest). ((k, v) # ms, rest))
                                               (parse_members n r')
                                        else if c = CHR ''}'' then Some ([(k, v)], r')
                                        else None)))))"

text \<open>The whole text must be one value. No call of the descent is deeper than the text
  is long.\<close>

definition JSON_parse :: "string \<Rightarrow> jsval option" where
  "JSON_parse text =
     (case parse_value (Suc (length text)) text of
        None \<Rightarrow> None
      | Some (v, rest) \<Rightarrow> if skip_ws rest = [] then Some v else None)"

section \<open>Properties of the statuses\<close>

text \<open>
  A stage has not started when its status is neither \<^verbatim>\<open>'active'\<close> nor \<^verbatim>\<open>'completed'\<close>:
  it is \<^verbatim>\<open>'waiting'\<close> or the key is not in \<^verbatim>\<open>agentStatuses\<close>. These are the two
  comparisons the program makes.

  \<open>moves X m m'\<close>: from the statuses \<open>m\<close> to \<open>m'\<close>, every stage keeps its status, or had
  not started and is active, or is one of \<open>X\<close> and is completed.
\<close>

definition not_started :: "status option \<Rightarrow> bool" where
  "not_started v = (v \<noteq> Some Active \<and> v \<noteq> Some Completed)"

definition moves :: "string set \<Rightarrow> (string \<Rightarrow> status option) \<Rightarrow> (string \<Rightarrow> status option) \<Rightarrow> bool" where
  "moves X m m' =
     (\<forall>k. m' k = m k \<or> (not_started (m k) \<and> m' k = Some Active) \<or> (k \<in> X \<and> m' k = Some Completed))"

lemma moves_refl [simp]: "moves X m m"
  by (simp add: moves_def)

lemma moves_trans: "moves X m1 m2 \<Longrightarrow> moves X m2 m3 \<Longrightarrow> moves X m1 m3"
  unfolding moves_def not_started_def
  by (metis option.inject status.distinct(5))

lemma moves_mono: "moves X m m' \<Longrightarrow> X \<subseteq> Y \<Longrightarrow> moves Y m m'"
  unfolding moves_def by blast

lemma moves_put_active: "not_started (m k) \<Longrightarrow> moves X m (put_status k Active m)"
  by (simp add: moves_def put_status_def)

lemma moves_put_completed: "k \<in> X \<Longrightarrow> moves X m (put_status k Completed m)"
  by (simp add: moves_def put_status_def)

lemma put_status_idem [simp]: "put_status k v (put_status k v m) = put_status k v m"
  by (simp add: put_status_def)

lemma agentStatuses_set_and_store:
  "agentStatuses (set_and_store k v s) = put_status k v (agentStatuses s)"
  by (simp add: set_and_store_def setAgentStatus_def Let_def)

lemma agentStatuses_setAgentStatus:
  "agentStatuses (setAgentStatus k v s) =
     (if cardClass s k = None then agentStatuses s else put_status k v (agentStatuses s))"
  by (simp add: setAgentStatus_def)

text \<open>\<open>keeps R f\<close>: the statement \<open>f\<close> takes every state to one that \<open>R\<close> relates to it,
  whether it completes or throws.\<close>

definition keeps :: "('s \<Rightarrow> 's \<Rightarrow> bool) \<Rightarrow> 's stmt \<Rightarrow> bool" where
  "keeps R f = (\<forall>s. R s (snd (f s)))"

lemma keepsD: "keeps R f \<Longrightarrow> R s (snd (f s))"
  by (simp add: keeps_def)

lemma keeps_skip: "(\<And>s. R s s) \<Longrightarrow> keeps R skip"
  by (simp add: keeps_def skip_def)

lemma keeps_const: "(\<And>s. R s (g s)) \<Longrightarrow> keeps R (\<lambda>s. (c, g s))"
  by (simp add: keeps_def)

lemma keeps_andThen:
  assumes "\<And>a b c. R a b \<Longrightarrow> R b c \<Longrightarrow> R a c" and "keeps R f" and "keeps R g"
  shows "keeps R (andThen f g)"
  unfolding keeps_def andThen_def
proof
  fix s
  obtain c s' where fs: "f s = (c, s')" by (cases "f s")
  have 1: "R s s'" using assms(2) fs by (auto simp: keeps_def dest: spec [of _ s])
  show "R s (snd (case f s of (Normal, s') \<Rightarrow> g s' | (Throw e, s') \<Rightarrow> (Throw e, s')))"
  proof (cases c)
    case Normal
    have "R s' (snd (g s'))" using assms(3) by (simp add: keeps_def)
    with 1 assms(1) fs Normal show ?thesis by auto
  next
    case (Throw e)
    with 1 fs show ?thesis by simp
  qed
qed

lemma keeps_bind_val:
  assumes "\<And>s. R s s" and "\<And>v. keeps R (f v)"
  shows "keeps R (bind_val r f)"
  using assms by (cases r) (auto simp: keeps_def bind_val_def)

lemma keeps_for_each:
  assumes "\<And>s. R s s" and "\<And>a b c. R a b \<Longrightarrow> R b c \<Longrightarrow> R a c" and "\<And>x. keeps R (f x)"
  shows "keeps R (for_each xs f)"
  unfolding keeps_def
proof (induction xs)
  case Nil
  show ?case using assms(1) by simp
next
  case (Cons x xs)
  show ?case
  proof
    fix s
    obtain c s' where fs: "f x s = (c, s')" by (cases "f x s")
    have 1: "R s s'" using assms(3) [of x] fs by (auto simp: keeps_def dest: spec [of _ s])
    show "R s (snd (for_each (x # xs) f s))"
    proof (cases c)
      case Normal
      with Cons.IH have "R s' (snd (for_each xs f s'))" by simp
      with 1 assms(2) fs Normal show ?thesis by auto
    next
      case (Throw e)
      with 1 fs show ?thesis by simp
    qed
  qed
qed

lemma keeps_try_catch:
  assumes "\<And>a b c. R a b \<Longrightarrow> R b c \<Longrightarrow> R a c" and "keeps R body" and "\<And>e. keeps R (handler e)"
  shows "keeps R (try_catch body handler)"
  unfolding keeps_def try_catch_def
proof
  fix s
  obtain c s' where fs: "body s = (c, s')" by (cases "body s")
  have 1: "R s s'" using assms(2) fs by (auto simp: keeps_def dest: spec [of _ s])
  show "R s (snd (case body s of (Normal, s') \<Rightarrow> (Normal, s') | (Throw e, s') \<Rightarrow> handler e s'))"
  proof (cases c)
    case Normal
    with 1 fs show ?thesis by simp
  next
    case (Throw e)
    have "R s' (snd (handler e s'))" using assms(3) by (simp add: keeps_def)
    with 1 assms(1) fs Throw show ?thesis by auto
  qed
qed

lemma keeps_if: "keeps R f \<Longrightarrow> keeps R g \<Longrightarrow> keeps R (if b then f else g)"
  by simp

lemma keeps_weaken: "keeps R f \<Longrightarrow> (\<And>s s'. R s s' \<Longrightarrow> Q s s') \<Longrightarrow> keeps Q f"
  by (simp add: keeps_def)


definition status_moves :: "string set \<Rightarrow> ui \<Rightarrow> ui \<Rightarrow> bool" where
  "status_moves X s s' = moves X (agentStatuses s) (agentStatuses s')"

lemma status_moves_refl [simp]: "status_moves X s s"
  by (simp add: status_moves_def)

lemma status_moves_trans: "status_moves X a b \<Longrightarrow> status_moves X b c \<Longrightarrow> status_moves X a c"
  unfolding status_moves_def by (rule moves_trans)

lemma status_moves_mono: "status_moves X a b \<Longrightarrow> X \<subseteq> Y \<Longrightarrow> status_moves Y a b"
  unfolding status_moves_def by (rule moves_mono)

lemma promote_builder_moves: "status_moves X s (promote_builder s)"
  by (simp add: status_moves_def promote_builder_def agentStatuses_set_and_store
      moves_put_active not_started_def)

lemma promote_next_moves: "status_moves X s (promote_next a s)"
  by (simp add: status_moves_def promote_next_def Let_def agentStatuses_set_and_store
      moves_put_active not_started_def)

lemma update_agent_moves:
  "status_moves (if is_finish r then {a} else {}) s (update_agent a r s)"
proof (cases "is_finish r")
  case True
  have "status_moves {a} s (set_and_store a Completed s)"
    by (simp add: status_moves_def agentStatuses_set_and_store moves_put_completed)
  from status_moves_trans [OF this promote_next_moves] True show ?thesis
    by (simp add: update_agent_def)
next
  case False
  then show ?thesis
    by (simp add: update_agent_def status_moves_def agentStatuses_set_and_store
        moves_put_active not_started_def)
qed

text \<open>The agent a finishing event speaks of: the one lines 373 to 391 resolve, when
  \<^verbatim>\<open>finishReason\<close> is one of the three codes.\<close>

definition completed_by :: "jsval \<Rightarrow> string set" where
  "completed_by event =
     (case get_prop event ''author'' of
        Inl e \<Rightarrow> {}
      | Inr author \<Rightarrow>
          if truthy author
          then (case resolve_agent author of
                  Inl e \<Rightarrow> {}
                | Inr agentId \<Rightarrow>
                    (case get_prop event ''finishReason'' of
                       Inl e \<Rightarrow> {}
                     | Inr r \<Rightarrow> if is_finish r then {agentId} else {}))
          else {})"

lemma author_block_moves: "keeps (status_moves (completed_by event)) (author_block event)"
  unfolding keeps_def
proof
  fix s
  show "status_moves (completed_by event) s (snd (author_block event s))"
  proof (cases "get_prop event ''author''")
    case (Inl e)
    then show ?thesis by (simp add: author_block_def bind_val_def)
  next
    case author: (Inr author)
    show ?thesis
    proof (cases "truthy author")
      case False
      with author show ?thesis by (simp add: author_block_def bind_val_def skip_def)
    next
      case True
      show ?thesis
      proof (cases "resolve_agent author")
        case (Inl e)
        with author True show ?thesis by (simp add: author_block_def bind_val_def)
      next
        case agent: (Inr a)
        show ?thesis
        proof (cases "get_prop event ''finishReason''")
          case (Inl e)
          with author True agent show ?thesis by (simp add: author_block_def bind_val_def)
        next
          case (Inr r)
          with author True agent have "completed_by event = (if is_finish r then {a} else {})"
            by (simp add: completed_by_def)
          with author True agent Inr update_agent_moves [of r a s] show ?thesis
            by (auto simp: author_block_def bind_val_def)
        qed
      qed
    qed
  qed
qed

lemma keeps_with_toolCalls:
  assumes "\<And>s. R s s" and "\<And>a b c. R a b \<Longrightarrow> R b c \<Longrightarrow> R a c" and "\<And>x. keeps R (body x)"
  shows "keeps R (with_toolCalls event body)"
  unfolding with_toolCalls_def
  by (intro keeps_bind_val keeps_if keeps_skip keeps_for_each [OF assms(1) assms(2)]
      assms(1) assms(3))

lemma keeps_promote_builder_if:
  "keeps (status_moves X) (\<lambda>s. (Normal, if found then promote_builder s else s))"
  by (simp add: keeps_def promote_builder_moves)

lemma verification_loop_block_moves: "keeps (status_moves X) (verification_loop_block event)"
  unfolding verification_loop_block_def
  by (intro keeps_bind_val keeps_if keeps_skip keeps_promote_builder_if status_moves_refl)

lemma toolCalls_status_block_moves: "keeps (status_moves X) (toolCalls_status_block event)"
  unfolding toolCalls_status_block_def toolCall_status_def
  by (intro keeps_with_toolCalls [OF status_moves_refl status_moves_trans]
      keeps_bind_val keeps_if keeps_skip keeps_promote_builder_if status_moves_refl)


text \<open>
  What a part of \<open>processStreamEvent\<close> may write: the status blocks write the statuses and
  the cards, the other blocks the artifact pointer and the report buffer.
\<close>

definition status_frame :: "ui \<Rightarrow> ui \<Rightarrow> bool" where
  "status_frame s s' = (\<exists>m c. s' = s\<lparr>agentStatuses := m, cardClass := c\<rparr>)"

definition buffers_frame :: "ui \<Rightarrow> ui \<Rightarrow> bool" where
  "buffers_frame s s' = (\<exists>p r. s' = s\<lparr>pdfFilePath := p, fullReport := r\<rparr>)"

definition event_frame :: "ui \<Rightarrow> ui \<Rightarrow> bool" where
  "event_frame s s' =
     (\<exists>m c p r. s' = s\<lparr>agentStatuses := m, cardClass := c, pdfFilePath := p, fullReport := r\<rparr>)"

lemma status_frame_refl [simp]: "status_frame s s"
  unfolding status_frame_def
  by (rule exI [of _ "agentStatuses s"], rule exI [of _ "cardClass s"]) simp

lemma status_frame_trans: "status_frame a b \<Longrightarrow> status_frame b c \<Longrightarrow> status_frame a c"
  unfolding status_frame_def by (elim exE, simp, intro exI, rule refl)

lemma buffers_frame_refl [simp]: "buffers_frame s s"
  unfolding buffers_frame_def
  by (rule exI [of _ "pdfFilePath s"], rule exI [of _ "fullReport s"]) simp

lemma buffers_frame_trans: "buffers_frame a b \<Longrightarrow> buffers_frame b c \<Longrightarrow> buffers_frame a c"
  unfolding buffers_frame_def by (elim exE, simp, intro exI, rule refl)

lemma event_frame_refl [simp]: "event_frame s s"
  unfolding event_frame_def
  by (rule exI [of _ "agentStatuses s"], rule exI [of _ "cardClass s"],
      rule exI [of _ "pdfFilePath s"], rule exI [of _ "fullReport s"]) simp

lemma event_frame_trans: "event_frame a b \<Longrightarrow> event_frame b c \<Longrightarrow> event_frame a c"
  unfolding event_frame_def by (elim exE, simp, intro exI, rule refl)

lemma status_frame_event: "status_frame s s' \<Longrightarrow> event_frame s s'"
  unfolding status_frame_def event_frame_def
  by (elim exE, simp, rule exI, rule exI, rule exI [of _ "pdfFilePath s"],
      rule exI [of _ "fullReport s"]) simp

lemma buffers_frame_event: "buffers_frame s s' \<Longrightarrow> event_frame s s'"
  unfolding buffers_frame_def event_frame_def
  by (elim exE, simp, rule exI [of _ "agentStatuses s"], rule exI [of _ "cardClass s"]) auto

lemma status_frame_set_and_store: "status_frame s (set_and_store k v s)"
  unfolding status_frame_def
  by (rule exI [of _ "agentStatuses (set_and_store k v s)"],
      rule exI [of _ "cardClass (set_and_store k v s)"])
     (simp add: set_and_store_def setAgentStatus_def Let_def)

lemma status_frame_setAgentStatus: "status_frame s (setAgentStatus k v s)"
  unfolding status_frame_def
  by (rule exI [of _ "agentStatuses (setAgentStatus k v s)"],
      rule exI [of _ "cardClass (setAgentStatus k v s)"])
     (simp add: setAgentStatus_def)

lemma buffers_frame_pdfFilePath: "buffers_frame s (s\<lparr>pdfFilePath := p\<rparr>)"
  unfolding buffers_frame_def
  by (rule exI [of _ p], rule exI [of _ "fullReport s"]) simp

lemma buffers_frame_fullReport: "buffers_frame s (s\<lparr>fullReport := r\<rparr>)"
  unfolding buffers_frame_def
  by (rule exI [of _ "pdfFilePath s"], rule exI [of _ r]) simp

lemma status_frame_promote_builder: "status_frame s (promote_builder s)"
  by (simp add: promote_builder_def status_frame_set_and_store)

lemma status_frame_update_agent: "status_frame s (update_agent a r s)"
proof -
  have n: "status_frame s' (promote_next a s')" for s'
    by (simp add: promote_next_def Let_def status_frame_set_and_store)
  show ?thesis
    using status_frame_trans [OF status_frame_set_and_store n]
    by (simp add: update_agent_def status_frame_set_and_store)
qed

lemmas keeps_status_frame_intros =
  keeps_bind_val [where R = status_frame, OF status_frame_refl]
  keeps_with_toolCalls [where R = status_frame, OF status_frame_refl status_frame_trans]
  keeps_skip [where R = status_frame, OF status_frame_refl]
  keeps_if [where R = status_frame]

lemmas keeps_buffers_frame_intros =
  keeps_bind_val [where R = buffers_frame, OF buffers_frame_refl]
  keeps_for_each [where R = buffers_frame, OF buffers_frame_refl buffers_frame_trans]
  keeps_with_toolCalls [where R = buffers_frame, OF buffers_frame_refl buffers_frame_trans]
  keeps_skip [where R = buffers_frame, OF buffers_frame_refl]
  keeps_if [where R = buffers_frame]

lemma author_block_frame: "keeps status_frame (author_block event)"
  unfolding author_block_def
  by (intro keeps_status_frame_intros)
     (auto simp: keeps_def bind_val_def status_frame_update_agent split: sum.splits)

lemma verification_loop_block_frame: "keeps status_frame (verification_loop_block event)"
  unfolding verification_loop_block_def
  by (intro keeps_status_frame_intros) (auto simp: keeps_def status_frame_promote_builder)

lemma toolCalls_status_block_frame: "keeps status_frame (toolCalls_status_block event)"
  unfolding toolCalls_status_block_def toolCall_status_def
  by (intro keeps_status_frame_intros) (auto simp: keeps_def status_frame_promote_builder)

lemma artifact_block_frame: "keeps buffers_frame (artifact_block event)"
  unfolding artifact_block_def artifact_entry_def
  by (intro keeps_buffers_frame_intros)
     (auto simp: keeps_def bind_val_def skip_def buffers_frame_pdfFilePath split: sum.splits)

lemma content_block_frame: "keeps buffers_frame (content_block event)"
  unfolding content_block_def
  by (intro keeps_buffers_frame_intros) (simp add: keeps_def buffers_frame_fullReport)

lemma toolCall_pdf_frame: "keeps buffers_frame (toolCall_pdf parse toolCall)"
  unfolding toolCall_pdf_def
  by (intro keeps_buffers_frame_intros)
     (auto simp: keeps_def skip_def buffers_frame_pdfFilePath split: jsval.splits)

lemma toolCalls_pdf_block_frame: "keeps buffers_frame (toolCalls_pdf_block parse event)"
  unfolding toolCalls_pdf_block_def
  by (intro keeps_buffers_frame_intros toolCall_pdf_frame)

lemma processStreamEvent_frame: "keeps event_frame (processStreamEvent parse event)"
  unfolding processStreamEvent_def
  by (intro keeps_andThen [where R = event_frame, OF event_frame_trans]
      keeps_weaken [OF author_block_frame status_frame_event]
      keeps_weaken [OF verification_loop_block_frame status_frame_event]
      keeps_weaken [OF toolCalls_status_block_frame status_frame_event]
      keeps_weaken [OF artifact_block_frame buffers_frame_event]
      keeps_weaken [OF content_block_frame buffers_frame_event]
      keeps_weaken [OF toolCalls_pdf_block_frame buffers_frame_event])

lemma buffers_frame_moves: "buffers_frame s s' \<Longrightarrow> status_moves X s s'"
  unfolding buffers_frame_def status_moves_def by auto

text \<open>One event moves the statuses as \<open>moves\<close> says, and only the agent a finishing event
  speaks of may become completed.\<close>

lemma processStreamEvent_moves:
  "keeps (status_moves (completed_by event)) (processStreamEvent parse event)"
  unfolding processStreamEvent_def
  by (intro keeps_andThen [where R = "status_moves (completed_by event)", OF status_moves_trans]
      author_block_moves verification_loop_block_moves toolCalls_status_block_moves
      keeps_weaken [OF artifact_block_frame buffers_frame_moves]
      keeps_weaken [OF content_block_frame buffers_frame_moves]
      keeps_weaken [OF toolCalls_pdf_block_frame buffers_frame_moves])

section \<open>Properties of the read loop\<close>

text \<open>The \<^verbatim>\<open>catch\<close> of line 353 has an empty body: whatever the \<^verbatim>\<open>try\<close> block throws,
  the statement completes.\<close>

lemma try_catch_skip_normal: "fst (try_catch body (\<lambda>e. skip) s) = Normal"
  by (cases "body s"; cases "fst (body s)") (auto simp: try_catch_def skip_def)

lemma handle_line_normal: "fst (handle_line parse on_event line s) = Normal"
  by (simp add: handle_line_def try_catch_skip_normal skip_def)

lemma handle_line_eq: "\<exists>s'. handle_line parse on_event line s = (Normal, s')"
  using handle_line_normal [of parse on_event line s] by (cases "handle_line parse on_event line s") simp

lemma indexOf_newline_append:
  "indexOf_newline b = Some i \<Longrightarrow> indexOf_newline (b @ t) = Some i"
  by (induction b arbitrary: i) (auto split: if_splits)

lemma process_lines_normal: "fst (process_lines parse on_event buffer s) = Normal"
proof (induction parse on_event buffer s rule: process_lines.induct)
  case (1 parse on_event buffer s)
  show ?case
  proof (cases "indexOf_newline buffer")
    case None
    then show ?thesis by (simp add: process_lines.simps)
  next
    case (Some i)
    obtain s1 where h: "handle_line parse on_event (trim (take i buffer)) s = (Normal, s1)"
      using handle_line_eq [of parse on_event "trim (take i buffer)" s] by blast
    from "1.IH" [OF Some refl refl h [symmetric] refl]
    show ?thesis using Some h by (subst process_lines.simps) (simp add: Let_def)
  qed
qed

lemma process_lines_None:
  "indexOf_newline buffer = None \<Longrightarrow> process_lines parse on_event buffer s = (Normal, buffer, s)"
  by (simp add: process_lines.simps)

lemma process_lines_Some:
  "indexOf_newline buffer = Some i \<Longrightarrow>
   process_lines parse on_event buffer s =
     process_lines parse on_event (drop (Suc i) buffer)
       (snd (handle_line parse on_event (trim (take i buffer)) s))"
proof -
  assume i: "indexOf_newline buffer = Some i"
  obtain s1 where h: "handle_line parse on_event (trim (take i buffer)) s = (Normal, s1)"
    using handle_line_eq [of parse on_event "trim (take i buffer)" s] by blast
  show ?thesis using i h by (subst process_lines.simps) (simp add: Let_def)
qed

lemma process_lines_append:
  "process_lines parse on_event (b @ t) s =
     (case process_lines parse on_event b s of
        (c, b', s') \<Rightarrow> process_lines parse on_event (b' @ t) s')"
proof (induction parse on_event b s rule: process_lines.induct)
  case (1 parse on_event buffer s)
  show ?case
  proof (cases "indexOf_newline buffer")
    case None
    then show ?thesis by (simp add: process_lines_None)
  next
    case (Some i)
    let ?line = "trim (take i buffer)"
    have i: "i < length buffer" using Some by (rule indexOf_newline_less)
    obtain s1 where h0: "handle_line parse on_event ?line s = (Normal, s1)"
      using handle_line_eq [of parse on_event "trim (take i buffer)" s] by blast
    then have h: "handle_line parse on_event ?line s = (Normal, snd (handle_line parse on_event ?line s))"
      by simp
    have IH: "process_lines parse on_event (drop (i + 1) buffer @ t) (snd (handle_line parse on_event ?line s)) =
        (case process_lines parse on_event (drop (i + 1) buffer) (snd (handle_line parse on_event ?line s)) of
           (c, b', s') \<Rightarrow> process_lines parse on_event (b' @ t) s')"
      by (rule "1.IH" [OF Some refl refl h [symmetric] refl])
    have "process_lines parse on_event (buffer @ t) s =
        process_lines parse on_event (drop (Suc i) (buffer @ t))
          (snd (handle_line parse on_event (trim (take i (buffer @ t))) s))"
      by (rule process_lines_Some [OF indexOf_newline_append [OF Some]])
    also have "\<dots> = process_lines parse on_event (drop (Suc i) buffer @ t)
          (snd (handle_line parse on_event ?line s))"
      using i by simp
    finally show ?thesis using IH by (simp add: process_lines_Some [OF Some])
  qed
qed

lemma process_lines_rest:
  "indexOf_newline (fst (snd (process_lines parse on_event buffer s))) = None"
proof (induction parse on_event buffer s rule: process_lines.induct)
  case (1 parse on_event buffer s)
  show ?case
  proof (cases "indexOf_newline buffer")
    case None
    then show ?thesis by (simp add: process_lines_None)
  next
    case (Some i)
    let ?line = "trim (take i buffer)"
    obtain s1 where h0: "handle_line parse on_event ?line s = (Normal, s1)"
      using handle_line_eq [of parse on_event "trim (take i buffer)" s] by blast
    then have h: "handle_line parse on_event ?line s = (Normal, snd (handle_line parse on_event ?line s))"
      by simp
    from "1.IH" [OF Some refl refl h [symmetric] refl]
    show ?thesis by (simp add: process_lines_Some [OF Some])
  qed
qed

lemma decode_chunk_append:
  "decode_chunk step d (xs @ ys) =
     (case decode_chunk step d xs of (d1, t1) \<Rightarrow>
        (case decode_chunk step d1 ys of (d2, t2) \<Rightarrow> (d2, t1 @ t2)))"
  by (induction xs arbitrary: d) (auto split: prod.splits)

lemma read_chunks_normal: "fst (read_chunks step parse on_event chunks d buffer s) = Normal"
proof (induction chunks arbitrary: d buffer s)
  case Nil
  show ?case by simp
next
  case (Cons c cs)
  obtain d' decoded where dc: "decode_chunk step d c = (d', decoded)" by (cases "decode_chunk step d c")
  obtain k b' s' where pl: "process_lines parse on_event (buffer @ decoded) s = (k, b', s')"
    by (cases "process_lines parse on_event (buffer @ decoded) s")
  with process_lines_normal [of parse on_event "buffer @ decoded" s] have "k = Normal" by simp
  with dc pl Cons.IH show ?case by simp
qed

lemma read_chunks_concat:
  "indexOf_newline buffer = None \<Longrightarrow>
   read_chunks step parse on_event chunks d buffer s =
     read_chunks step parse on_event [concat chunks] d buffer s"
proof (induction chunks arbitrary: d buffer s)
  case Nil
  then show ?case by (simp add: process_lines_None)
next
  case (Cons c cs)
  obtain d' decoded where dc: "decode_chunk step d c = (d', decoded)" by (cases "decode_chunk step d c")
  obtain k b' s' where pl: "process_lines parse on_event (buffer @ decoded) s = (k, b', s')"
    by (cases "process_lines parse on_event (buffer @ decoded) s")
  with process_lines_normal [of parse on_event "buffer @ decoded" s] have k: "k = Normal" by simp
  have nb: "indexOf_newline b' = None"
    using process_lines_rest [of parse on_event "buffer @ decoded" s] pl by simp
  obtain d'' text2 where dc2: "decode_chunk step d' (concat cs) = (d'', text2)"
    by (cases "decode_chunk step d' (concat cs)")
  have "read_chunks step parse on_event (c # cs) d buffer s =
      read_chunks step parse on_event cs d' b' s'"
    using dc pl k by simp
  also have "\<dots> = read_chunks step parse on_event [concat cs] d' b' s'"
    by (rule Cons.IH [OF nb])
  also have "\<dots> = read_chunks step parse on_event [concat (c # cs)] d buffer s"
    using dc dc2 pl k process_lines_append [of parse on_event "buffer @ decoded" text2 s]
    by (simp add: decode_chunk_append)
  finally show ?case .
qed


text \<open>
  C2: the decoder does not depend on the chunk boundaries. However the bytes of a
  stream are cut into chunks, the loop of lines 312 to 359 hands the same events to
  \<open>processStreamEvent\<close>, in the same order, as when the whole stream comes as one chunk;
  and the whole \<^verbatim>\<open>while (true)\<close> leaves the same state and completes the same way. This
  holds for every stream, every decoder and every parser.
\<close>

theorem chunk_boundary_independent:
  "decoded_events decode_step d0 parse chunks = decoded_events decode_step d0 parse [concat chunks] \<and>
   read_loop decode_step d0 parse chunks ending s =
     read_loop decode_step d0 parse [concat chunks] ending s"
  unfolding decoded_events_def read_loop_def
  by (simp only: read_chunks_concat [of "[]" _ _ _ chunks, OF indexOf_newline.simps(1)])

section \<open>The statuses along a run\<close>

lemma handle_line_keeps:
  assumes "\<And>s. R s s" and "\<And>a b c. R a b \<Longrightarrow> R b c \<Longrightarrow> R a c" and "\<And>event. keeps R (on_event event)"
  shows "keeps R (handle_line parse on_event line)"
  unfolding handle_line_def Let_def
  by (intro keeps_if keeps_try_catch [OF assms(2)] keeps_bind_val keeps_skip assms(1) assms(3))

lemma process_lines_keeps:
  assumes R_refl: "\<And>s. R s s" and R_trans: "\<And>a b c. R a b \<Longrightarrow> R b c \<Longrightarrow> R a c"
  shows "(\<And>event. keeps R (on_event event)) \<Longrightarrow>
         R s (snd (snd (process_lines parse on_event buffer s)))"
proof (induction parse on_event buffer s rule: process_lines.induct)
  case (1 parse on_event buffer s)
  show ?case
  proof (cases "indexOf_newline buffer")
    case None
    then show ?thesis by (simp add: process_lines_None R_refl)
  next
    case (Some i)
    let ?line = "trim (take i buffer)"
    obtain s1 where h: "handle_line parse on_event ?line s = (Normal, s1)"
      using handle_line_eq [of parse on_event ?line s] by blast
    have "keeps R (handle_line parse on_event ?line)"
    proof (rule handle_line_keeps [where R = R])
      show "\<And>s. R s s" by (rule R_refl)
      show "\<And>a b c. R a b \<Longrightarrow> R b c \<Longrightarrow> R a c" by (rule R_trans)
      show "\<And>event. keeps R (on_event event)" by (rule "1.prems")
    qed
    then have a: "R s s1" using h by (auto simp: keeps_def dest: spec [of _ s])
    have b: "R s1 (snd (snd (process_lines parse on_event (drop (i + 1) buffer) s1)))"
      by (rule "1.IH" [OF Some refl refl h [symmetric] refl "1.prems"])
    from R_trans [OF a b] show ?thesis
      using h by (simp add: process_lines_Some [OF Some])
  qed
qed

lemma read_chunks_keeps:
  assumes R_refl: "\<And>s. R s s" and R_trans: "\<And>a b c. R a b \<Longrightarrow> R b c \<Longrightarrow> R a c"
    and ev: "\<And>event. keeps R (on_event event)"
  shows "R s (snd (snd (snd (read_chunks step parse on_event chunks d buffer s))))"
proof (induction chunks arbitrary: d buffer s)
  case Nil
  show ?case by (simp add: R_refl)
next
  case (Cons c cs)
  obtain d' decoded where dc: "decode_chunk step d c = (d', decoded)"
    by (cases "decode_chunk step d c")
  obtain k b' s' where pl: "process_lines parse on_event (buffer @ decoded) s = (k, b', s')"
    by (cases "process_lines parse on_event (buffer @ decoded) s")
  with process_lines_normal [of parse on_event "buffer @ decoded" s] have k: "k = Normal" by simp
  have "R s (snd (snd (process_lines parse on_event (buffer @ decoded) s)))"
  proof (rule process_lines_keeps [where R = R])
    show "\<And>s. R s s" by (rule R_refl)
    show "\<And>a b c. R a b \<Longrightarrow> R b c \<Longrightarrow> R a c" by (rule R_trans)
    show "\<And>event. keeps R (on_event event)" by (rule ev)
  qed
  then have a: "R s s'" using pl by simp
  have b: "R s' (snd (snd (snd (read_chunks step parse on_event cs d' b' s'))))"
    by (rule Cons.IH)
  from R_trans [OF a b] show ?case
    using dc pl k by simp
qed

text \<open>\<open>finishes m m'\<close>: from \<open>m\<close> to \<open>m'\<close>, every stage keeps its status or was active and
  is completed.\<close>

definition finishes :: "(string \<Rightarrow> status option) \<Rightarrow> (string \<Rightarrow> status option) \<Rightarrow> bool" where
  "finishes m m' = (\<forall>k. m' k = m k \<or> (m k = Some Active \<and> m' k = Some Completed))"

lemma finishes_refl [simp]: "finishes m m"
  by (simp add: finishes_def)

lemma finishes_trans: "finishes a b \<Longrightarrow> finishes b c \<Longrightarrow> finishes a c"
  unfolding finishes_def by (metis option.inject status.distinct(5))

lemma complete_one_finishes:
  "finishes (agentStatuses s)
     (agentStatuses (if agentStatuses s a = Some Active \<or> agentStatuses s a = Some Completed
                     then setAgentStatus a Completed s else s))"
  by (auto simp: finishes_def agentStatuses_setAgentStatus put_status_def)

lemma complete_active_finishes: "finishes (agentStatuses s) (agentStatuses (complete_active s))"
proof -
  have "finishes (agentStatuses s)
      (agentStatuses (fold (\<lambda>agentId s. if agentStatuses s agentId = Some Active \<or>
                                            agentStatuses s agentId = Some Completed
                                         then setAgentStatus agentId Completed s else s) xs s))" for xs
  proof (induction xs arbitrary: s)
    case Nil
    show ?case by simp
  next
    case (Cons a xs)
    show ?case
      using finishes_trans [OF complete_one_finishes [where s = s and a = a] Cons.IH] by simp
  qed
  from this [of "[''orchestrator'', ''parser'', ''modeler'', ''builder'', ''verifier'']"]
  show ?thesis unfolding complete_active_def .
qed

lemma agentStatuses_updateReportDisplay [simp]:
  "agentStatuses (updateReportDisplay s) = agentStatuses s"
  by (simp add: updateReportDisplay_def)

lemma finish_stream_finishes: "finishes (agentStatuses s) (agentStatuses (finish_stream s))"
  using complete_active_finishes [where s = s] by (simp add: finish_stream_def)

lemma finishes_moves: "finishes m m' \<Longrightarrow> moves UNIV m m'"
  unfolding finishes_def moves_def by blast

text \<open>\<open>never_demoted m m'\<close>: a stage completed in \<open>m\<close> is completed in \<open>m'\<close>, and a stage
  active in \<open>m\<close> is active or completed in \<open>m'\<close>.\<close>

definition never_demoted :: "(string \<Rightarrow> status option) \<Rightarrow> (string \<Rightarrow> status option) \<Rightarrow> bool" where
  "never_demoted m m' =
     (\<forall>k. (m k = Some Completed \<longrightarrow> m' k = Some Completed) \<and>
          (m k = Some Active \<longrightarrow> m' k = Some Active \<or> m' k = Some Completed))"

lemma moves_never_demoted: "moves X m m' \<Longrightarrow> never_demoted m m'"
  unfolding moves_def never_demoted_def not_started_def by metis

lemma processStreamEvent_moves_UNIV: "keeps (status_moves UNIV) (processStreamEvent parse event)"
  by (rule keeps_weaken [OF processStreamEvent_moves]) (erule status_moves_mono, simp)

lemma read_chunks_moves:
  "status_moves UNIV s
     (snd (snd (snd (read_chunks step parse (processStreamEvent parse) chunks d buffer s))))"
proof (rule read_chunks_keeps [where R = "status_moves UNIV"])
  show "\<And>s. status_moves UNIV s s" by simp
  show "\<And>a b c. status_moves UNIV a b \<Longrightarrow> status_moves UNIV b c \<Longrightarrow> status_moves UNIV a c"
    by (rule status_moves_trans)
  show "\<And>event. keeps (status_moves UNIV) (processStreamEvent parse event)"
    by (rule processStreamEvent_moves_UNIV)
qed

lemma read_loop_moves:
  "ending = EndOfStream \<or> ending = ReadFailed e \<Longrightarrow>
   status_moves UNIV s (snd (read_loop step d0 parse chunks ending s))"
proof -
  assume e: "ending = EndOfStream \<or> ending = ReadFailed e"
  obtain k d b s' where rc: "read_chunks step parse (processStreamEvent parse) chunks d0 [] s = (k, d, b, s')"
    by (cases "read_chunks step parse (processStreamEvent parse) chunks d0 [] s")
  with read_chunks_normal [where step = step and parse = parse and on_event = "processStreamEvent parse"
      and chunks = chunks and d = d0 and buffer = "[]" and s = s]
  have k: "k = Normal" by simp
  have a: "status_moves UNIV s s'"
    using read_chunks_moves [where s = s and step = step and parse = parse and chunks = chunks
        and d = d0 and buffer = "[]"] rc by simp
  have b: "status_moves UNIV s' (snd (read_end ending s'))"
    using e finishes_moves [OF finish_stream_finishes [where s = s']] by (auto simp: status_moves_def)
  from status_moves_trans [OF a b] show ?thesis using rc k by (simp add: read_loop_def)
qed

section \<open>The page as loaded\<close>

text \<open>
  Modelled from the spec: the page \<^verbatim>\<open>index.html\<close>, which is not among the sources. The
  data model keys the stages by a fixed five-element enumeration, and the program
  addresses the cards \<^verbatim>\<open>agent-orchestrator\<close> to \<^verbatim>\<open>agent-verifier\<close>: the page has these
  five cards, each waiting. The variables have the values of lines 16 to 21 and 35.
\<close>

definition page_loaded :: ui where
  "page_loaded =
     \<lparr>agentStatuses = (\<lambda>k. None),
      cardClass = map_of [(''orchestrator'', Waiting), (''parser'', Waiting), (''modeler'', Waiting),
                          (''builder'', Waiting), (''verifier'', Waiting)],
      fullReport = [], pdfFilePath = JNull, currentSessionId = JNull, abortController = None,
      uploadedFile = None, input_value = [], reportContent = InitialPlaceholder,
      analyzeBtn_disabled = False, resetBtn_disabled = True, downloadBtn_disabled = True,
      balloons = False\<rparr>"

section \<open>Example events and states\<close>

text \<open>
  The two events of the scenario of the specification: the parser is seen, and the parser
  stops. \<open>run_started\<close> is the page after \<^verbatim>\<open>startAnalysis\<close> has reset it for a run on a
  description typed into the input.
\<close>

definition parser_seen :: jsval where
  "parser_seen = JObj [(''author'', JStr ''architecture_parser_agent'')]"

definition parser_stop :: jsval where
  "parser_stop = JObj [(''author'', JStr ''architecture_parser_agent''), (''finishReason'', JStr ''STOP'')]"

definition run_started :: ui where
  "run_started = begin_run (page_loaded\<lparr>input_value := ''a web shop''\<rparr>)"

text \<open>On a card that exists, \<open>setAgentStatus\<close> and the assignment after it write the same
  value to the card and to \<^verbatim>\<open>agentStatuses\<close>.\<close>

lemma set_and_store_known:
  "cardClass s k \<noteq> None \<Longrightarrow> k \<noteq> ''__proto__'' \<Longrightarrow>
   set_and_store k v s =
     s\<lparr>cardClass := (cardClass s)(k \<mapsto> v), agentStatuses := (agentStatuses s)(k \<mapsto> v)\<rparr>"
  by (auto simp: set_and_store_def setAgentStatus_def put_status_def Let_def)

lemma setAgentStatus_known:
  "cardClass s k \<noteq> None \<Longrightarrow> k \<noteq> ''__proto__'' \<Longrightarrow>
   setAgentStatus k v s =
     s\<lparr>cardClass := (cardClass s)(k \<mapsto> v), agentStatuses := (agentStatuses s)(k \<mapsto> v)\<rparr>"
  by (auto simp: setAgentStatus_def put_status_def)

lemmas state_simps = run_started_def begin_run_def page_loaded_def resetAllAgents_def
  open_stream_def set_and_store_known setAgentStatus_known Let_def

lemmas event_simps = processStreamEvent_def author_block_def verification_loop_block_def
  toolCalls_status_block_def with_toolCalls_def artifact_block_def content_block_def
  toolCalls_pdf_block_def andThen_def bind_val_def skip_def own_property_def
  resolve_agent_def AGENT_MAPPING_get_def AGENT_MAPPING_def update_agent_def is_finish_def
  promote_next_def AGENT_SEQUENCE_def includes_either_def startsWith_def

lemma parser_stop_run_started:
  "processStreamEvent parse parser_stop run_started =
     (Normal, run_started
        \<lparr>cardClass := (cardClass run_started)(''parser'' \<mapsto> Completed, ''modeler'' \<mapsto> Active),
         agentStatuses := (agentStatuses run_started)(''parser'' \<mapsto> Completed, ''modeler'' \<mapsto> Active)\<rparr>)"
  by (simp add: parser_stop_def event_simps state_simps)


section \<open>The claims about the statuses\<close>

text \<open>
  C1: no stage's status is ever demoted. A stage that is completed stays completed, and a
  stage that is active stays active or becomes completed: whatever one event does
  (whether \<open>processStreamEvent\<close> completes or throws), whatever any sequence of chunks
  read by the loop does from any buffer and decoder state, at the end of the stream, and
  over the whole loop when the stream ends or the read fails. (The reset at the start of
  a run, and the reset a cancelling routine performs, are outside the claim.)
\<close>

theorem statuses_never_demoted:
  "never_demoted (agentStatuses s) (agentStatuses (snd (processStreamEvent parse event s))) \<and>
   never_demoted (agentStatuses s)
     (agentStatuses (snd (snd (snd (read_chunks decode_step parse (processStreamEvent parse)
        chunks d buffer s))))) \<and>
   never_demoted (agentStatuses s) (agentStatuses (finish_stream s)) \<and>
   never_demoted (agentStatuses s)
     (agentStatuses (snd (read_loop decode_step d0 parse chunks EndOfStream s))) \<and>
   never_demoted (agentStatuses s)
     (agentStatuses (snd (read_loop decode_step d0 parse chunks (ReadFailed e) s)))"
proof (intro conjI)
  show "never_demoted (agentStatuses s) (agentStatuses (snd (processStreamEvent parse event s)))"
    using keepsD [OF processStreamEvent_moves_UNIV [where parse = parse and event = event],
        where s = s]
    by (simp add: status_moves_def moves_never_demoted)
  show "never_demoted (agentStatuses s)
     (agentStatuses (snd (snd (snd (read_chunks decode_step parse (processStreamEvent parse)
        chunks d buffer s)))))"
    using read_chunks_moves [where s = s and step = decode_step and parse = parse and chunks = chunks
        and d = d and buffer = buffer]
    by (simp add: status_moves_def moves_never_demoted)
  show "never_demoted (agentStatuses s) (agentStatuses (finish_stream s))"
    using finishes_moves [OF finish_stream_finishes [where s = s]] by (rule moves_never_demoted)
  show "never_demoted (agentStatuses s)
     (agentStatuses (snd (read_loop decode_step d0 parse chunks EndOfStream s)))"
    using read_loop_moves [where ending = EndOfStream and s = s and step = decode_step and ?d0.0 = d0
        and parse = parse and chunks = chunks]
    by (simp add: status_moves_def moves_never_demoted)
  show "never_demoted (agentStatuses s)
     (agentStatuses (snd (read_loop decode_step d0 parse chunks (ReadFailed e) s)))"
    using read_loop_moves [where ending = "ReadFailed e" and e = e and s = s and step = decode_step
        and ?d0.0 = d0 and parse = parse and chunks = chunks]
    by (simp add: status_moves_def moves_never_demoted)
qed

theorem statuses_never_demoted_witness:
  "agentStatuses (snd (processStreamEvent JSON_parse parser_stop run_started)) ''parser'' = Some Completed \<and>
   agentStatuses (snd (processStreamEvent JSON_parse parser_seen
      (snd (processStreamEvent JSON_parse parser_stop run_started)))) ''parser'' = Some Completed"
proof -
  have h: "agentStatuses (snd (processStreamEvent JSON_parse parser_stop run_started)) ''parser'' = Some Completed"
    by (simp add: parser_stop_run_started)
  have "never_demoted (agentStatuses (snd (processStreamEvent JSON_parse parser_stop run_started)))
     (agentStatuses (snd (processStreamEvent JSON_parse parser_seen
        (snd (processStreamEvent JSON_parse parser_stop run_started)))))"
    by (rule conjunct1 [OF statuses_never_demoted])
  with h show ?thesis by (simp add: never_demoted_def)
qed

text \<open>
  C6 (as stated, refuted): an event can move a stage from not started to completed
  without the stage ever having been active. In a run that has just started the parser
  is waiting; the event in which the parser stops, arriving first, sets it completed.
\<close>

theorem completed_without_active:
  "agentStatuses run_started ''parser'' = Some Waiting \<and>
   agentStatuses (snd (processStreamEvent JSON_parse parser_stop run_started)) ''parser'' = Some Completed"
  by (simp add: parser_stop_run_started) (simp add: state_simps)

text \<open>
  C6 (amended): an event leaves every stage as it is, or moves a stage that had not
  started to active, or sets the agent that a finishing event speaks of to completed,
  whatever its status was (line 397 checks completion before anything else). The end of
  the stream leaves every stage as it is or moves an active stage to completed.
\<close>

theorem status_transitions:
  "moves (completed_by event) (agentStatuses s) (agentStatuses (snd (processStreamEvent parse event s))) \<and>
   finishes (agentStatuses s) (agentStatuses (finish_stream s))"
  using keepsD [OF processStreamEvent_moves [where parse = parse and event = event], where s = s]
    finish_stream_finishes [where s = s]
  by (simp add: status_moves_def)

text \<open>The five blocks after the first never complete a stage.\<close>

lemma later_blocks_moves:
  "keeps (status_moves {})
     (andThen (verification_loop_block event)
     (andThen (toolCalls_status_block event)
     (andThen (artifact_block event)
     (andThen (content_block event)
              (toolCalls_pdf_block parse event)))))"
  by (intro keeps_andThen [where R = "status_moves {}", OF status_moves_trans]
      verification_loop_block_moves toolCalls_status_block_moves
      keeps_weaken [OF artifact_block_frame buffers_frame_moves]
      keeps_weaken [OF content_block_frame buffers_frame_moves]
      keeps_weaken [OF toolCalls_pdf_block_frame buffers_frame_moves])

lemma promote_next_known:
  "agentStatuses (promote_next ''orchestrator'' s) =
      (if not_started (agentStatuses s ''parser'') then (agentStatuses s)(''parser'' \<mapsto> Active) else agentStatuses s)"
  "agentStatuses (promote_next ''parser'' s) =
      (if not_started (agentStatuses s ''modeler'') then (agentStatuses s)(''modeler'' \<mapsto> Active) else agentStatuses s)"
  "agentStatuses (promote_next ''modeler'' s) =
      (if not_started (agentStatuses s ''builder'') then (agentStatuses s)(''builder'' \<mapsto> Active) else agentStatuses s)"
  "agentStatuses (promote_next ''builder'' s) =
      (if not_started (agentStatuses s ''verifier'') then (agentStatuses s)(''verifier'' \<mapsto> Active) else agentStatuses s)"
  by (simp_all add: promote_next_def AGENT_SEQUENCE_def Let_def agentStatuses_set_and_store
      put_status_def not_started_def)

lemma sequence_pairs:
  "(X, Y) \<in> set (zip AGENT_SEQUENCE (tl AGENT_SEQUENCE)) \<longleftrightarrow>
     X = ''orchestrator'' \<and> Y = ''parser'' \<or> X = ''parser'' \<and> Y = ''modeler'' \<or>
     X = ''modeler'' \<and> Y = ''builder'' \<or> X = ''builder'' \<and> Y = ''verifier''"
  by (simp add: AGENT_SEQUENCE_def)

lemma update_agent_next_cases:
  assumes "is_finish r"
  shows "agentStatuses (update_agent ''orchestrator'' r s) ''parser'' =
           (if not_started (agentStatuses s ''parser'') then Some Active else agentStatuses s ''parser'')"
    and "agentStatuses (update_agent ''parser'' r s) ''modeler'' =
           (if not_started (agentStatuses s ''modeler'') then Some Active else agentStatuses s ''modeler'')"
    and "agentStatuses (update_agent ''modeler'' r s) ''builder'' =
           (if not_started (agentStatuses s ''builder'') then Some Active else agentStatuses s ''builder'')"
    and "agentStatuses (update_agent ''builder'' r s) ''verifier'' =
           (if not_started (agentStatuses s ''verifier'') then Some Active else agentStatuses s ''verifier'')"
  using assms
  by (simp_all add: update_agent_def promote_next_known agentStatuses_set_and_store put_status_def)

lemma update_agent_next:
  assumes "is_finish r" and "(X, Y) \<in> set (zip AGENT_SEQUENCE (tl AGENT_SEQUENCE))"
  shows "agentStatuses (update_agent X r s) Y =
           (if not_started (agentStatuses s Y) then Some Active else agentStatuses s Y)"
  using assms(2) update_agent_next_cases [OF assms(1), of s]
  unfolding sequence_pairs by (elim disjE conjE) (simp_all only:)

text \<open>
  C3: an event with a recognised finish reason whose author resolves to stage \<open>X\<close>, \<open>X\<close>
  having a card on the page, and \<open>Y\<close> following \<open>X\<close> in \<^verbatim>\<open>AGENT_SEQUENCE\<close>: after the event
  \<open>Y\<close> is active if it had not started, and has its old status if it was active or
  completed.
\<close>

theorem next_stage_promoted:
  assumes author: "get_prop event ''author'' = Inr author" "truthy author"
    and agent: "resolve_agent author = Inr X"
    and finish: "get_prop event ''finishReason'' = Inr r" "is_finish r"
    and follows: "(X, Y) \<in> set (zip AGENT_SEQUENCE (tl AGENT_SEQUENCE))"
    and card: "cardClass s X \<noteq> None"
  shows "agentStatuses (snd (processStreamEvent parse event s)) Y =
           (if not_started (agentStatuses s Y) then Some Active else agentStatuses s Y)"
proof -
  let ?s1 = "update_agent X r s"
  let ?rest = "andThen (verification_loop_block event)
     (andThen (toolCalls_status_block event)
     (andThen (artifact_block event)
     (andThen (content_block event)
              (toolCalls_pdf_block parse event))))"
  from follows have "X \<noteq> []" by (auto simp: AGENT_SEQUENCE_def)
  with author agent finish card have "author_block event s = (Normal, ?s1)"
    by (auto simp: author_block_def bind_val_def)
  then have run: "processStreamEvent parse event s = ?rest ?s1"
    by (simp add: processStreamEvent_def andThen_def)
  have Y1: "agentStatuses ?s1 Y = (if not_started (agentStatuses s Y) then Some Active else agentStatuses s Y)"
    using finish(2) follows by (rule update_agent_next)
  then have "\<not> not_started (agentStatuses ?s1 Y)"
    by (auto simp: not_started_def)
  moreover have "moves {} (agentStatuses ?s1) (agentStatuses (snd (?rest ?s1)))"
    using keepsD [OF later_blocks_moves [where parse = parse and event = event], where s = ?s1]
    by (simp add: status_moves_def)
  ultimately have "agentStatuses (snd (?rest ?s1)) Y = agentStatuses ?s1 Y"
    unfolding moves_def by (metis empty_iff)
  with run Y1 show ?thesis by simp
qed

theorem next_stage_promoted_witness:
  "agentStatuses run_started ''modeler'' = Some Waiting \<and>
   agentStatuses (snd (processStreamEvent JSON_parse parser_stop run_started)) ''modeler'' = Some Active"
proof -
  have a: "get_prop parser_stop ''author'' = Inr (JStr ''architecture_parser_agent'')"
    by (simp add: parser_stop_def own_property_def)
  have b: "truthy (JStr ''architecture_parser_agent'')" by simp
  have c: "resolve_agent (JStr ''architecture_parser_agent'') = Inr ''parser''"
    by (simp add: resolve_agent_def AGENT_MAPPING_get_def AGENT_MAPPING_def)
  have d: "get_prop parser_stop ''finishReason'' = Inr (JStr ''STOP'')"
    by (simp add: parser_stop_def own_property_def)
  have e: "is_finish (JStr ''STOP'')" by (simp add: is_finish_def)
  have f: "(''parser'', ''modeler'') \<in> set (zip AGENT_SEQUENCE (tl AGENT_SEQUENCE))"
    by (simp add: AGENT_SEQUENCE_def)
  have g: "cardClass run_started ''parser'' \<noteq> None" by (simp add: state_simps)
  have h: "agentStatuses run_started ''modeler'' = Some Waiting" by (simp add: state_simps)
  from next_stage_promoted [OF a b c d e f g, of JSON_parse] h show ?thesis
    by (simp add: not_started_def)
qed

section \<open>Lines and frames\<close>

lemma indexOf_newline_line: "newline \<notin> set line \<Longrightarrow> indexOf_newline (line @ newline # rest) = Some (length line)"
  by (induction line) auto

lemma process_lines_line:
  "newline \<notin> set line \<Longrightarrow>
   process_lines parse on_event (line @ newline # rest) s =
     process_lines parse on_event rest (snd (handle_line parse on_event (trim line) s))"
  by (simp add: process_lines_Some [OF indexOf_newline_line])

lemma process_lines_Nil [simp]: "process_lines parse on_event [] s = (Normal, [], s)"
  by (simp add: process_lines_None)




lemma handle_line_event:
  "startsWith line ''data: '' \<Longrightarrow> parse (drop 6 line) = Some event \<Longrightarrow> drop 6 line \<noteq> [] \<Longrightarrow>
   handle_line parse on_event line s = (Normal, snd (on_event event s))"
  by (cases "on_event event s"; cases "fst (on_event event s)")
     (auto simp: handle_line_def try_catch_def bind_val_def skip_def)


section \<open>The scenario of the specification\<close>

text \<open>The two frames of the scenario as the lines the server sends, and a frame cut short
  in the middle of its JSON text.\<close>

definition frame_seen :: string where
  \<open>frame_seen = ''data: {"author":"architecture_parser_agent"}''\<close>

definition frame_stop :: string where
  \<open>frame_stop = ''data: {"author":"architecture_parser_agent","finishReason":"STOP"}''\<close>


lemmas parse_simps = JSON_parse_def skip_ws_def json_ws_def dquote_def backslash_def
  startsWith_def escaped_def

lemmas line_simps = trim_def is_space_def newline_def startsWith_def

lemma frame_seen_line:
  "newline \<notin> set frame_seen" "trim frame_seen = frame_seen" "startsWith frame_seen ''data: ''"
  "drop 6 frame_seen \<noteq> []"
  by (simp_all add: frame_seen_def line_simps)

lemma frame_seen_parse: "JSON_parse (drop 6 frame_seen) = Some parser_seen"
  by (simp add: frame_seen_def parser_seen_def parse_simps)

lemma frame_stop_line:
  "newline \<notin> set frame_stop" "trim frame_stop = frame_stop" "startsWith frame_stop ''data: ''"
  "drop 6 frame_stop \<noteq> []"
  by (simp_all add: frame_stop_def line_simps)

lemma frame_stop_parse: "JSON_parse (drop 6 frame_stop) = Some parser_stop"
  by (simp add: frame_stop_def parser_stop_def parse_simps)




text \<open>
  A run of the scenario: the user has typed a description, the session request answers
  with an id, and the body of the query response is the two frames, each ended by a line
  feed, in one chunk; then the stream is done. \<open>scenario_opened\<close> is the state when the
  read loop starts, \<open>scenario_read\<close> the state after the chunk, before the end of the
  stream.
\<close>

definition typed_page :: ui where
  "typed_page = page_loaded\<lparr>input_value := ''a web shop''\<rparr>"

lemma run_started_typed: "run_started = begin_run typed_page"
  by (simp add: run_started_def typed_page_def)

definition session_ok :: session_response where
  "session_ok = SessionBody (Some (JObj [(''id'', JStr ''session-1'')]))"

definition scenario_stream :: string where
  "scenario_stream = frame_seen @ newline # frame_stop @ [newline]"

definition scenario_env :: "char run_env" where
  "scenario_env =
     \<lparr>session_response = session_ok, file_readable = True,
      query_response = QueryBody [scenario_stream] EndOfStream\<rparr>"

definition scenario_opened :: ui where
  "scenario_opened = open_stream (run_started\<lparr>currentSessionId := JStr ''session-1''\<rparr>)"

definition scenario_read :: ui where
  "scenario_read =
     snd (snd (snd (read_chunks ascii_step JSON_parse (processStreamEvent JSON_parse)
       [scenario_stream] () [] scenario_opened)))"

lemma decode_chunk_ascii [simp]: "decode_chunk ascii_step d bs = (d, bs)"
  by (induction bs) (auto simp: ascii_step_def)

lemma createSession_ok: "createSession session_ok = Inr (JStr ''session-1'')"
  by (simp add: createSession_def session_ok_def own_property_def)

lemma process_scenario_stream:
  "process_lines JSON_parse on_event scenario_stream s =
     (Normal, [], snd (on_event parser_stop (snd (on_event parser_seen s))))"
  by (simp add: scenario_stream_def process_lines_line frame_seen_line frame_stop_line
      handle_line_event [where parse = JSON_parse and line = frame_seen,
        OF frame_seen_line(3) frame_seen_parse frame_seen_line(4)]
      handle_line_event [where parse = JSON_parse and line = frame_stop,
        OF frame_stop_line(3) frame_stop_parse frame_stop_line(4)])

lemma read_scenario_stream:
  "read_chunks ascii_step JSON_parse on_event [scenario_stream] () [] s =
     (Normal, (), [], snd (on_event parser_stop (snd (on_event parser_seen s))))"
  by (simp add: process_scenario_stream)

lemma status_frame_resetAllAgents: "status_frame s (resetAllAgents s)"
proof -
  have "status_frame s (fold (\<lambda>agentId. set_and_store agentId Waiting) xs s)" for xs
  proof (induction xs arbitrary: s)
    case Nil
    show ?case by simp
  next
    case (Cons a xs)
    show ?case
      using status_frame_trans [OF status_frame_set_and_store Cons.IH] by simp
  qed
  then show ?thesis unfolding resetAllAgents_def .
qed

lemma uploadedFile_begin_run [simp]: "uploadedFile (begin_run s) = uploadedFile s"
  using status_frame_resetAllAgents [of "s\<lparr>fullReport := [], reportContent := StartingPlaceholder\<rparr>"]
  by (auto simp: begin_run_def Let_def status_frame_def)

lemma startAnalysis_stream:
  "trim (input_value s) \<noteq> [] \<Longrightarrow> uploadedFile s = None \<Longrightarrow>
   startAnalysis ascii_step () JSON_parse
     \<lparr>session_response = session_ok, file_readable = True, query_response = QueryBody chunks ending\<rparr> s =
   (case read_loop ascii_step () JSON_parse chunks ending
           (open_stream ((begin_run s)\<lparr>currentSessionId := JStr ''session-1''\<rparr>)) of
      (Normal, s') \<Rightarrow> (Normal, s')
    | (Throw e, s') \<Rightarrow>
        if e = AbortError then (Normal, s')
        else (Normal, s'\<lparr>reportContent := ErrorBox e, analyzeBtn_disabled := False,
                            resetBtn_disabled := False\<rparr>))"
  by (simp add: startAnalysis_def run_body_def streamQuery_def try_catch_def bind_val_def
      andThen_def skip_def run_failed_def createSession_ok
      split: prod.splits completion.splits)

lemma read_loop_scenario:
  "read_loop ascii_step () JSON_parse [scenario_stream] EndOfStream scenario_opened =
     (Normal, finish_stream scenario_read)"
  by (simp add: read_loop_def scenario_read_def read_scenario_stream del: read_chunks.simps)

lemma scenario_run:
  "startAnalysis ascii_step () JSON_parse scenario_env typed_page = (Normal, finish_stream scenario_read)"
proof -
  have a: "trim (input_value typed_page) \<noteq> []"
    by (simp add: typed_page_def page_loaded_def line_simps)
  have b: "uploadedFile typed_page = None"
    by (simp add: typed_page_def page_loaded_def)
  show ?thesis
    unfolding scenario_env_def startAnalysis_stream [OF a b]
    by (simp add: read_loop_scenario [unfolded scenario_opened_def run_started_typed])
qed

lemma scenario_read_eq:
  "scenario_read =
     snd (processStreamEvent JSON_parse parser_stop
       (snd (processStreamEvent JSON_parse parser_seen scenario_opened)))"
  by (simp add: scenario_read_def read_scenario_stream del: read_chunks.simps)

lemma scenario_read_statuses:
  "agentStatuses scenario_read =
     (agentStatuses run_started)(''orchestrator'' \<mapsto> Active, ''parser'' \<mapsto> Completed,
        ''modeler'' \<mapsto> Active)"
  by (simp add: scenario_read_eq scenario_opened_def parser_seen_def parser_stop_def
      event_simps state_simps)










lemma scenario_read_cards:
  "cardClass scenario_read =
     (cardClass run_started)(''orchestrator'' \<mapsto> Active, ''parser'' \<mapsto> Completed,
        ''modeler'' \<mapsto> Active)"
  by (simp add: scenario_read_eq scenario_opened_def parser_seen_def parser_stop_def
      event_simps state_simps)

lemma scenario_opened_statuses:
  "map (agentStatuses scenario_opened) AGENT_SEQUENCE =
     [Some Active, Some Waiting, Some Waiting, Some Waiting, Some Waiting]"
  by (simp add: scenario_opened_def AGENT_SEQUENCE_def state_simps)

lemma scenario_read_sequence:
  "map (agentStatuses scenario_read) AGENT_SEQUENCE =
     [Some Active, Some Completed, Some Active, Some Waiting, Some Waiting]"
  by (simp add: scenario_read_statuses AGENT_SEQUENCE_def state_simps)

lemma scenario_end_sequence:
  "map (agentStatuses (finish_stream scenario_read)) AGENT_SEQUENCE =
     [Some Completed, Some Completed, Some Completed, Some Waiting, Some Waiting]"
  by (simp add: finish_stream_def complete_active_def scenario_read_statuses scenario_read_cards
      AGENT_SEQUENCE_def state_simps)


text \<open>
  C5 (as stated, refuted): in the scenario the orchestrator is not unaffected. It is active
  when the read loop starts (line 300), and the end of the stream completes it with the
  other active stages.
\<close>

theorem orchestrator_completed_at_end:
  "agentStatuses scenario_opened ''orchestrator'' = Some Active \<and>
   agentStatuses (snd (startAnalysis ascii_step () JSON_parse scenario_env typed_page)) ''orchestrator'' =
     Some Completed"
  using scenario_opened_statuses scenario_end_sequence
  by (simp add: scenario_run AGENT_SEQUENCE_def)

text \<open>
  C5 (amended): for the stream of the two frames and then end-of-stream, the statuses of
  orchestrator, parser, modeler, builder and verifier are, in this order: when the read
  loop starts, active and four times waiting; after the second frame, active, completed,
  active, waiting, waiting; at the end of the run, completed, completed, completed,
  waiting, waiting.
\<close>

theorem scenario_statuses:
  "startAnalysis ascii_step () JSON_parse scenario_env typed_page = (Normal, finish_stream scenario_read) \<and>
   map (agentStatuses scenario_opened) AGENT_SEQUENCE =
     [Some Active, Some Waiting, Some Waiting, Some Waiting, Some Waiting] \<and>
   map (agentStatuses scenario_read) AGENT_SEQUENCE =
     [Some Active, Some Completed, Some Active, Some Waiting, Some Waiting] \<and>
   map (agentStatuses (finish_stream scenario_read)) AGENT_SEQUENCE =
     [Some Completed, Some Completed, Some Completed, Some Waiting, Some Waiting]"
  by (simp only: scenario_run scenario_opened_statuses scenario_read_sequence scenario_end_sequence)

section \<open>A tool call with a response that is not JSON\<close>

lemma andThen_throws: "(\<And>s. fst (g s) \<noteq> Normal) \<Longrightarrow> fst (andThen f g s) \<noteq> Normal"
  by (cases "f s"; cases "fst (f s)") (auto simp: andThen_def)

lemma for_each_throws:
  "x \<in> set xs \<Longrightarrow> (\<And>s. fst (f x s) \<noteq> Normal) \<Longrightarrow> fst (for_each xs f s) \<noteq> Normal"
proof (induction xs arbitrary: s)
  case Nil
  then show ?case by simp
next
  case (Cons y ys)
  obtain c s' where fy: "f y s = (c, s')" by (cases "f y s")
  show ?case
  proof (cases c)
    case (Throw e)
    with fy show ?thesis by simp
  next
    case Normal
    with fy Cons.prems(2) [of s] have "y \<noteq> x" by auto
    with Cons.prems(1) have "x \<in> set ys" by simp
    from Cons.IH [OF this Cons.prems(2)] fy Normal show ?thesis by simp
  qed
qed

lemma get_prop_defined_truthy: "get_prop v k = Inr (JArr xs) \<Longrightarrow> truthy v"
  by (cases v) auto

lemma toolCall_pdf_unparsable:
  "get_prop toolCall ''name'' = Inr (JStr ''convert_markdown_to_pdf'') \<Longrightarrow>
   get_prop toolCall ''response'' = Inr (JStr r) \<Longrightarrow> r \<noteq> [] \<Longrightarrow> parse r = None \<Longrightarrow>
   toolCall_pdf parse toolCall s = (Throw SyntaxError, s)"
  by (simp add: toolCall_pdf_def bind_val_def)

lemma toolCalls_pdf_block_throws:
  assumes "get_prop event ''actions'' = Inr actions"
    and "get_prop actions ''toolCalls'' = Inr (JArr toolCalls)"
    and "toolCall \<in> set toolCalls"
    and "get_prop toolCall ''name'' = Inr (JStr ''convert_markdown_to_pdf'')"
    and "get_prop toolCall ''response'' = Inr (JStr r)" and "r \<noteq> []" and "parse r = None"
  shows "fst (toolCalls_pdf_block parse event s) \<noteq> Normal"
proof -
  have "fst (for_each toolCalls (toolCall_pdf parse) s) \<noteq> Normal"
    using assms(3)
  proof (rule for_each_throws)
    fix s' show "fst (toolCall_pdf parse toolCall s') \<noteq> Normal"
      by (simp add: toolCall_pdf_unparsable [where parse = parse, OF assms(4-7)])
  qed
  then show ?thesis
    using assms(1,2) get_prop_defined_truthy [OF assms(2)]
    by (simp add: toolCalls_pdf_block_def with_toolCalls_def bind_val_def)
qed

lemma processStreamEvent_throws:
  "(\<And>s. fst (toolCalls_pdf_block parse event s) \<noteq> Normal) \<Longrightarrow>
   fst (processStreamEvent parse event s) \<noteq> Normal"
  unfolding processStreamEvent_def
  by (intro andThen_throws)

lemma reportContent_updateReportDisplay:
  "(\<exists>html. reportContent (updateReportDisplay s) = ReportHtml html) \<or>
   reportContent (updateReportDisplay s) = ProcessingPlaceholder"
  by (simp add: updateReportDisplay_def)

lemma read_loop_done:
  "\<exists>s'. read_loop step d0 parse chunks EndOfStream s = (Normal, finish_stream s')"
proof -
  obtain k d b s' where rc: "read_chunks step parse (processStreamEvent parse) chunks d0 [] s = (k, d, b, s')"
    by (cases "read_chunks step parse (processStreamEvent parse) chunks d0 [] s")
  with read_chunks_normal [where step = step and parse = parse and on_event = "processStreamEvent parse"
      and chunks = chunks and d = d0 and buffer = "[]" and s = s]
  have "k = Normal" by simp
  with rc show ?thesis by (auto simp: read_loop_def)
qed

lemma streamQuery_done:
  "fst (streamQuery step d0 parse (QueryBody chunks EndOfStream) s) = Normal \<and>
   ((\<exists>html. reportContent (snd (streamQuery step d0 parse (QueryBody chunks EndOfStream) s)) = ReportHtml html) \<or>
    reportContent (snd (streamQuery step d0 parse (QueryBody chunks EndOfStream) s)) = ProcessingPlaceholder)"
proof -
  obtain s' where "read_loop step d0 parse chunks EndOfStream (open_stream s) = (Normal, finish_stream s')"
    using read_loop_done [where step = step and ?d0.0 = d0 and parse = parse and chunks = chunks
        and s = "open_stream s"] by blast
  then show ?thesis
    using reportContent_updateReportDisplay [of "complete_active s'"]
    by (simp add: streamQuery_def try_catch_def finish_stream_def)
qed

lemma event_frame_reportContent: "event_frame s s' \<Longrightarrow> reportContent s' = reportContent s"
  by (auto simp: event_frame_def)

text \<open>
  An event with one tool call named \<^verbatim>\<open>convert_markdown_to_pdf\<close> whose response is the
  string \<^verbatim>\<open>not json\<close>, its frame, and a run whose stream is that frame and then the frame
  in which the parser stops.
\<close>

definition toolcall_event :: jsval where
  "toolcall_event =
     JObj [(''actions'', JObj [(''toolCalls'',
       JArr [JObj [(''name'', JStr ''convert_markdown_to_pdf''), (''response'', JStr ''not json'')]])])]"

definition frame_toolcall :: string where
  \<open>frame_toolcall =
     ''data: {"actions":{"toolCalls":[{"name":"convert_markdown_to_pdf","response":"not json"}]}}''\<close>

definition toolcall_env :: "char run_env" where
  "toolcall_env =
     \<lparr>session_response = session_ok, file_readable = True,
      query_response = QueryBody [frame_toolcall @ newline # frame_stop @ [newline]] EndOfStream\<rparr>"

lemma frame_toolcall_line:
  "newline \<notin> set frame_toolcall" "trim frame_toolcall = frame_toolcall"
  "startsWith frame_toolcall ''data: ''" "drop 6 frame_toolcall \<noteq> []"
  by (simp_all add: frame_toolcall_def line_simps)

lemma frame_toolcall_parse: "JSON_parse (drop 6 frame_toolcall) = Some toolcall_event"
  by (simp add: frame_toolcall_def toolcall_event_def parse_simps)

lemma not_json: "JSON_parse ''not json'' = None"
  by code_simp

lemma toolcall_event_throws:
  "processStreamEvent JSON_parse toolcall_event s = (Throw SyntaxError, promote_builder s)"
  by (simp add: toolcall_event_def event_simps toolCall_status_def toolCall_pdf_def not_json)

lemma toolcall_run:
  "startAnalysis ascii_step () JSON_parse toolcall_env typed_page =
     (Normal, finish_stream (snd (processStreamEvent JSON_parse parser_stop
        (promote_builder scenario_opened))))"
proof -
  have a: "trim (input_value typed_page) \<noteq> []"
    by (simp add: typed_page_def page_loaded_def line_simps)
  have b: "uploadedFile typed_page = None"
    by (simp add: typed_page_def page_loaded_def)
  have c: "process_lines JSON_parse (processStreamEvent JSON_parse)
      (frame_toolcall @ newline # frame_stop @ [newline]) s =
    (Normal, [], snd (processStreamEvent JSON_parse parser_stop (promote_builder s)))" for s
    by (simp add: process_lines_line frame_toolcall_line frame_stop_line toolcall_event_throws
      handle_line_event [where parse = JSON_parse and line = frame_toolcall,
        OF frame_toolcall_line(3) frame_toolcall_parse frame_toolcall_line(4)]
      handle_line_event [where parse = JSON_parse and line = frame_stop,
        OF frame_stop_line(3) frame_stop_parse frame_stop_line(4)])
  show ?thesis
    unfolding toolcall_env_def startAnalysis_stream [OF a b]
    by (simp add: read_loop_def c scenario_opened_def run_started_typed)
qed


lemma promote_builder_known:
  "cardClass s ''builder'' \<noteq> None \<Longrightarrow> not_started (agentStatuses s ''builder'') \<Longrightarrow>
   promote_builder s =
     s\<lparr>cardClass := (cardClass s)(''builder'' \<mapsto> Active),
       agentStatuses := (agentStatuses s)(''builder'' \<mapsto> Active)\<rparr>"
  by (simp add: promote_builder_def not_started_def set_and_store_known)

lemma toolcall_read_statuses:
  "agentStatuses (snd (processStreamEvent JSON_parse parser_stop (promote_builder scenario_opened))) =
     (agentStatuses run_started)(''orchestrator'' \<mapsto> Active, ''builder'' \<mapsto> Active,
        ''parser'' \<mapsto> Completed, ''modeler'' \<mapsto> Active)"
  by (simp add: promote_builder_known not_started_def scenario_opened_def parser_stop_def
      event_simps state_simps)

lemma toolcall_read_cards:
  "cardClass (snd (processStreamEvent JSON_parse parser_stop (promote_builder scenario_opened))) =
     (cardClass run_started)(''orchestrator'' \<mapsto> Active, ''builder'' \<mapsto> Active,
        ''parser'' \<mapsto> Completed, ''modeler'' \<mapsto> Active)"
  by (simp add: promote_builder_known not_started_def scenario_opened_def parser_stop_def
      event_simps state_simps)

lemma toolcall_read_report:
  "fullReport (snd (processStreamEvent JSON_parse parser_stop (promote_builder scenario_opened))) = []"
  by (simp add: promote_builder_known not_started_def scenario_opened_def parser_stop_def
      event_simps state_simps)

lemma status_frame_complete_active: "status_frame s (complete_active s)"
proof -
  have "status_frame s (fold (\<lambda>agentId s. if agentStatuses s agentId = Some Active \<or>
                                            agentStatuses s agentId = Some Completed
                                         then setAgentStatus agentId Completed s else s) xs s)" for xs
  proof (induction xs arbitrary: s)
    case Nil
    show ?case by simp
  next
    case (Cons a xs)
    have "status_frame s (if agentStatuses s a = Some Active \<or> agentStatuses s a = Some Completed
        then setAgentStatus a Completed s else s)"
      by (simp add: status_frame_setAgentStatus)
    from status_frame_trans [OF this Cons.IH] show ?case by simp
  qed
  from this [of "[''orchestrator'', ''parser'', ''modeler'', ''builder'', ''verifier'']"]
  show ?thesis unfolding complete_active_def .
qed

lemma status_frame_fields:
  "status_frame s s' \<Longrightarrow>
   fullReport s' = fullReport s \<and> pdfFilePath s' = pdfFilePath s \<and>
   reportContent s' = reportContent s \<and> input_value s' = input_value s \<and>
   uploadedFile s' = uploadedFile s"
  by (auto simp: status_frame_def)

lemma fullReport_complete_active [simp]: "fullReport (complete_active s) = fullReport s"
  using status_frame_fields [OF status_frame_complete_active] by blast

lemma pdfFilePath_complete_active [simp]: "pdfFilePath (complete_active s) = pdfFilePath s"
  using status_frame_fields [OF status_frame_complete_active] by blast

text \<open>
  C10 (as stated, refuted): the exception of the unguarded \<^verbatim>\<open>JSON.parse\<close> of line 484
  does not end the read loop and is not displayed. On the event above
  \<open>processStreamEvent\<close> throws a \<^verbatim>\<open>SyntaxError\<close>; the run nevertheless completes
  normally, the report area shows the "Processing..." placeholder and no error, the frame
  behind the failing one has been processed (the parser is completed), and the builder,
  which the tool call had promoted before the throw, is completed at the end.
\<close>

theorem toolcall_run_goes_on:
  "fst (processStreamEvent JSON_parse toolcall_event scenario_opened) = Throw SyntaxError \<and>
   fst (startAnalysis ascii_step () JSON_parse toolcall_env typed_page) = Normal \<and>
   reportContent (snd (startAnalysis ascii_step () JSON_parse toolcall_env typed_page)) =
     ProcessingPlaceholder \<and>
   map (agentStatuses (snd (startAnalysis ascii_step () JSON_parse toolcall_env typed_page)))
     AGENT_SEQUENCE =
     [Some Completed, Some Completed, Some Completed, Some Completed, Some Waiting]"
proof (intro conjI)
  show "fst (processStreamEvent JSON_parse toolcall_event scenario_opened) = Throw SyntaxError"
    by (simp add: toolcall_event_throws)
  show "fst (startAnalysis ascii_step () JSON_parse toolcall_env typed_page) = Normal"
    by (simp add: toolcall_run)
  show "reportContent (snd (startAnalysis ascii_step () JSON_parse toolcall_env typed_page)) =
     ProcessingPlaceholder"
    by (simp add: toolcall_run finish_stream_def updateReportDisplay_def toolcall_read_report
        line_simps)
  show "map (agentStatuses (snd (startAnalysis ascii_step () JSON_parse toolcall_env typed_page)))
     AGENT_SEQUENCE =
     [Some Completed, Some Completed, Some Completed, Some Completed, Some Waiting]"
    by (simp add: toolcall_run finish_stream_def complete_active_def toolcall_read_statuses
        toolcall_read_cards AGENT_SEQUENCE_def state_simps)
qed

text \<open>
  C10 (amended): an event with a tool call named \<^verbatim>\<open>convert_markdown_to_pdf\<close> whose
  response is a non-empty string that \<^verbatim>\<open>JSON.parse\<close> rejects makes \<open>processStreamEvent\<close>
  throw, which abandons the rest of the event. The call of line 351 stands inside the
  \<^verbatim>\<open>try\<close> of line 346, so the empty \<^verbatim>\<open>catch\<close> swallows the exception: the loop goes on
  with the lines behind the frame, from the state the event had reached; the event leaves
  the report area as it was; and a stream that ends with \<^verbatim>\<open>done\<close> completes
  \<open>streamQuery\<close> normally with the report or the placeholder in the report area, never
  an error.
\<close>

theorem toolcall_response_caught:
  assumes "get_prop event ''actions'' = Inr actions"
    and "get_prop actions ''toolCalls'' = Inr (JArr toolCalls)"
    and "toolCall \<in> set toolCalls"
    and "get_prop toolCall ''name'' = Inr (JStr ''convert_markdown_to_pdf'')"
    and "get_prop toolCall ''response'' = Inr (JStr r)" and "r \<noteq> []" and "parse r = None"
    and "newline \<notin> set line" and "startsWith (trim line) ''data: ''"
    and "drop 6 (trim line) \<noteq> []" and "parse (drop 6 (trim line)) = Some event"
  shows "fst (processStreamEvent parse event s) \<noteq> Normal \<and>
         process_lines parse (processStreamEvent parse) (line @ newline # rest) s =
           process_lines parse (processStreamEvent parse) rest (snd (processStreamEvent parse event s)) \<and>
         reportContent (snd (processStreamEvent parse event s)) = reportContent s \<and>
         fst (streamQuery decode_step d0 parse (QueryBody chunks EndOfStream) s) = Normal \<and>
         ((\<exists>html. reportContent (snd (streamQuery decode_step d0 parse (QueryBody chunks EndOfStream) s)) =
              ReportHtml html) \<or>
          reportContent (snd (streamQuery decode_step d0 parse (QueryBody chunks EndOfStream) s)) =
              ProcessingPlaceholder)"
proof (intro conjI)
  show "fst (processStreamEvent parse event s) \<noteq> Normal"
    by (rule processStreamEvent_throws) (rule toolCalls_pdf_block_throws [where parse = parse, OF assms(1-7)])
  show "process_lines parse (processStreamEvent parse) (line @ newline # rest) s =
      process_lines parse (processStreamEvent parse) rest (snd (processStreamEvent parse event s))"
    using assms(8) handle_line_event [where parse = parse and on_event = "processStreamEvent parse" and s = s,
        OF assms(9) assms(11) assms(10)]
    by (simp add: process_lines_line)
  show "reportContent (snd (processStreamEvent parse event s)) = reportContent s"
    by (rule event_frame_reportContent) (rule keepsD [OF processStreamEvent_frame])
  show "fst (streamQuery decode_step d0 parse (QueryBody chunks EndOfStream) s) = Normal"
    by (rule streamQuery_done [THEN conjunct1])
  show "(\<exists>html. reportContent (snd (streamQuery decode_step d0 parse (QueryBody chunks EndOfStream) s)) =
              ReportHtml html) \<or>
          reportContent (snd (streamQuery decode_step d0 parse (QueryBody chunks EndOfStream) s)) =
              ProcessingPlaceholder"
    by (rule streamQuery_done [THEN conjunct2])
qed

theorem toolcall_response_caught_witness:
  "JSON_parse ''not json'' = None \<and>
   JSON_parse (drop 6 (trim frame_toolcall)) = Some toolcall_event \<and>
   fst (processStreamEvent JSON_parse toolcall_event scenario_opened) \<noteq> Normal \<and>
   reportContent (snd (processStreamEvent JSON_parse toolcall_event scenario_opened)) =
     reportContent scenario_opened"
proof -
  let ?call = "JObj [(''name'', JStr ''convert_markdown_to_pdf''), (''response'', JStr ''not json'')]"
  let ?actions = "JObj [(''toolCalls'', JArr [?call])]"
  have a: "get_prop toolcall_event ''actions'' = Inr ?actions"
    by (simp add: toolcall_event_def own_property_def)
  have b: "get_prop ?actions ''toolCalls'' = Inr (JArr [?call])"
    by (simp add: own_property_def)
  have c: "?call \<in> set [?call]" by simp
  have d: "get_prop ?call ''name'' = Inr (JStr ''convert_markdown_to_pdf'')"
    by (simp add: own_property_def)
  have e: "get_prop ?call ''response'' = Inr (JStr ''not json'')"
    by (simp add: own_property_def)
  have f: "''not json'' \<noteq> []" by simp
  have g: "JSON_parse ''not json'' = None" by (rule not_json)
  have h: "newline \<notin> set frame_toolcall" by (rule frame_toolcall_line(1))
  have i: "startsWith (trim frame_toolcall) ''data: ''" by (simp add: frame_toolcall_line)
  have j: "drop 6 (trim frame_toolcall) \<noteq> []"
    by (subst frame_toolcall_line(2)) (rule frame_toolcall_line(4))
  have k: "JSON_parse (drop 6 (trim frame_toolcall)) = Some toolcall_event"
    by (simp add: frame_toolcall_line frame_toolcall_parse)
  note t = toolcall_response_caught [where parse = JSON_parse and s = scenario_opened,
      OF a b c d e f g h i j k]
  from t [THEN conjunct1] t [THEN conjunct2, THEN conjunct2, THEN conjunct1] g k
  show ?thesis by simp
qed

section \<open>The artifact pointer across runs\<close>

text \<open>
  The program has two per-run buffers, \<^verbatim>\<open>fullReport\<close> and \<^verbatim>\<open>pdfFilePath\<close> (lines 19 and 20).
  \<open>resetAnalysis\<close> clears both (lines 628 and 629); the "Reset UI" part of
  \<^verbatim>\<open>startAnalysis\<close> clears \<^verbatim>\<open>fullReport\<close> only (line 178).
\<close>

lemma begin_run_buffers:
  "fullReport (begin_run s) = [] \<and> pdfFilePath (begin_run s) = pdfFilePath s \<and>
   reportContent (begin_run s) = StartingPlaceholder \<and> input_value (begin_run s) = input_value s"
  using status_frame_fields [OF status_frame_resetAllAgents
      [of "s\<lparr>fullReport := [], reportContent := StartingPlaceholder\<rparr>"]]
  by (simp add: begin_run_def Let_def)

lemma resetAnalysis_buffers:
  "fullReport (resetAnalysis s) = [] \<and> pdfFilePath (resetAnalysis s) = JNull \<and>
   reportContent (resetAnalysis s) = InitialPlaceholder"
proof -
  let ?s0 = "case abortController s of None \<Rightarrow> s | Some a \<Rightarrow> s\<lparr>abortController := Some True\<rparr>"
  let ?s1 = "?s0\<lparr>currentSessionId := JNull, fullReport := [], pdfFilePath := JNull,
                agentStatuses := (\<lambda>k. None), input_value := [], uploadedFile := None,
                balloons := False, reportContent := InitialPlaceholder\<rparr>"
  from status_frame_fields [OF status_frame_resetAllAgents [of ?s1]]
  show ?thesis by (simp add: resetAnalysis_def Let_def)
qed

lemma open_stream_fields:
  "pdfFilePath (open_stream s) = pdfFilePath s \<and> fullReport (open_stream s) = fullReport s \<and>
   input_value (open_stream s) = input_value s \<and> uploadedFile (open_stream s) = uploadedFile s"
  using status_frame_fields [OF status_frame_set_and_store [of s "''orchestrator''" Active]]
  by (simp add: open_stream_def)

lemma finish_stream_fields:
  "pdfFilePath (finish_stream s) = pdfFilePath s \<and> fullReport (finish_stream s) = fullReport s \<and>
   input_value (finish_stream s) = input_value s \<and> uploadedFile (finish_stream s) = uploadedFile s"
  using status_frame_fields [OF status_frame_complete_active [of s]]
  by (simp add: finish_stream_def updateReportDisplay_def)

text \<open>
  The event of the specification's scenario,
  \<^verbatim>\<open>artifactDelta {"report.pdf":{"filePath":"/tmp/report.pdf"}}\<close>, its frame, and a run
  on the typed page whose stream is that frame, ended as \<open>ending\<close> says.
\<close>

definition artifact_event :: jsval where
  "artifact_event =
     JObj [(''actions'', JObj [(''artifactDelta'',
       JObj [(''report.pdf'', JObj [(''filePath'', JStr ''/tmp/report.pdf'')])])])]"

definition frame_artifact :: string where
  \<open>frame_artifact =
     ''data: {"actions":{"artifactDelta":{"report.pdf":{"filePath":"/tmp/report.pdf"}}}}''\<close>

definition artifact_env :: "stream_end \<Rightarrow> char run_env" where
  "artifact_env ending =
     \<lparr>session_response = session_ok, file_readable = True,
      query_response = QueryBody [frame_artifact @ [newline]] ending\<rparr>"

text \<open>The state in which the run that reads the frame up to the end of the stream
  leaves the page.\<close>

definition finished_run :: ui where
  "finished_run = snd (startAnalysis ascii_step () JSON_parse (artifact_env EndOfStream) typed_page)"

text \<open>A run whose stream ends before its first frame.\<close>

definition quiet_env :: "char run_env" where
  "quiet_env =
     \<lparr>session_response = session_ok, file_readable = True,
      query_response = QueryBody [] EndOfStream\<rparr>"

lemma frame_artifact_line:
  "newline \<notin> set frame_artifact" "trim frame_artifact = frame_artifact"
  "startsWith frame_artifact ''data: ''" "drop 6 frame_artifact \<noteq> []"
  by (simp_all add: frame_artifact_def line_simps)

lemma frame_artifact_parse: "JSON_parse (drop 6 frame_artifact) = Some artifact_event"
  by (simp add: frame_artifact_def artifact_event_def parse_simps)

lemma artifact_event_effect:
  "processStreamEvent parse artifact_event s = (Normal, s\<lparr>pdfFilePath := JStr ''/tmp/report.pdf''\<rparr>)"
  by (simp add: artifact_event_def event_simps artifact_entry_def endsWith_def)

lemma read_artifact_frame:
  "read_chunks ascii_step JSON_parse (processStreamEvent JSON_parse) [frame_artifact @ [newline]] () [] s =
     (Normal, (), [], s\<lparr>pdfFilePath := JStr ''/tmp/report.pdf''\<rparr>)"
  by (simp add: process_lines_line frame_artifact_line artifact_event_effect
      handle_line_event [where parse = JSON_parse and line = frame_artifact,
        OF frame_artifact_line(3) frame_artifact_parse frame_artifact_line(4)])

lemma typed_page_input:
  "trim (input_value typed_page) \<noteq> []" "uploadedFile typed_page = None"
  "pdfFilePath typed_page = JNull"
  by (simp_all add: typed_page_def page_loaded_def line_simps)

lemma artifact_run:
  "startAnalysis ascii_step () JSON_parse (artifact_env ending) typed_page =
     (case read_end ending (scenario_opened\<lparr>pdfFilePath := JStr ''/tmp/report.pdf''\<rparr>) of
        (Normal, s') \<Rightarrow> (Normal, s')
      | (Throw e, s') \<Rightarrow>
          if e = AbortError then (Normal, s')
          else (Normal, s'\<lparr>reportContent := ErrorBox e, analyzeBtn_disabled := False,
                              resetBtn_disabled := False\<rparr>))"
  unfolding artifact_env_def startAnalysis_stream [OF typed_page_input(1,2)]
  by (simp add: read_loop_def read_artifact_frame scenario_opened_def run_started_typed
      del: read_chunks.simps)

lemma finished_run_eq:
  "finished_run = finish_stream (scenario_opened\<lparr>pdfFilePath := JStr ''/tmp/report.pdf''\<rparr>)"
  by (simp add: finished_run_def artifact_run)

lemma scenario_opened_fields:
  "input_value scenario_opened = ''a web shop''" "uploadedFile scenario_opened = None"
  by (simp_all add: scenario_opened_def open_stream_fields run_started_typed begin_run_buffers
      typed_page_def page_loaded_def)

lemma finished_run_fields:
  "pdfFilePath finished_run = JStr ''/tmp/report.pdf''"
  "trim (input_value finished_run) \<noteq> []" "uploadedFile finished_run = None"
  by (simp_all add: finished_run_eq finish_stream_fields scenario_opened_fields line_simps)

lemma quiet_run:
  "pdfFilePath (snd (startAnalysis ascii_step () JSON_parse quiet_env finished_run)) =
     pdfFilePath finished_run"
  unfolding quiet_env_def startAnalysis_stream [OF finished_run_fields(2,3)]
  by (simp add: read_loop_def finish_stream_fields open_stream_fields begin_run_buffers)

text \<open>
  C7 (refuted; the code does not do what its own reset does): run start, lines 177 to
  189, empties the report buffer and leaves the artifact pointer as it was, in every
  state, whereas \<open>resetAnalysis\<close> sets the pointer to \<^verbatim>\<open>null\<close>. After a run that has read
  the frame above the pointer is \<^verbatim>\<open>/tmp/report.pdf\<close>; it still is immediately after the
  start of the next run, and at the end of a next run whose stream carries no event
  at all.
\<close>

theorem run_start_keeps_artifact_pointer:
  "fullReport (begin_run s) = [] \<and>
   pdfFilePath (begin_run s) = pdfFilePath s \<and>
   pdfFilePath (resetAnalysis s) = JNull \<and>
   pdfFilePath finished_run = JStr ''/tmp/report.pdf'' \<and>
   pdfFilePath (begin_run finished_run) = JStr ''/tmp/report.pdf'' \<and>
   pdfFilePath (snd (startAnalysis ascii_step () JSON_parse quiet_env finished_run)) =
     JStr ''/tmp/report.pdf''"
  by (simp add: finished_run_fields begin_run_buffers quiet_run resetAnalysis_buffers)

section \<open>Clicks while a stream is open\<close>

text \<open>
  A run disables the two buttons before its first \<^verbatim>\<open>await\<close> (lines 181 and 182) and
  enables them again only when the stream has ended (lines 326 and 327) or the run has
  failed (lines 232 and 233); an event touches neither. So a click on either button
  while the stream of a run is open calls no listener: the run is the run without the
  click, and the program never aborts the stream it is reading.
\<close>

lemma event_frame_buttons:
  "event_frame s s' \<Longrightarrow>
   analyzeBtn_disabled s' = analyzeBtn_disabled s \<and> resetBtn_disabled s' = resetBtn_disabled s"
  by (auto simp: event_frame_def)

lemma read_chunks_frame:
  "event_frame s (snd (snd (snd (read_chunks step parse (processStreamEvent parse) chunks d buffer s))))"
proof (rule read_chunks_keeps [where R = event_frame])
  show "\<And>s. event_frame s s" by simp
  show "\<And>a b c. event_frame a b \<Longrightarrow> event_frame b c \<Longrightarrow> event_frame a c"
    by (rule event_frame_trans)
  show "\<And>event. keeps event_frame (processStreamEvent parse event)"
    by (rule processStreamEvent_frame)
qed

lemma read_end_click_ignored:
  "analyzeBtn_disabled s \<Longrightarrow> resetBtn_disabled s \<Longrightarrow> read_end (Clicked c rest) s = read_end rest s"
  by (cases c) simp_all

lemma read_loop_click_ignored:
  assumes "analyzeBtn_disabled s" and "resetBtn_disabled s"
  shows "read_loop step d0 parse chunks (Clicked c rest) s = read_loop step d0 parse chunks rest s"
proof -
  obtain k d b s' where rc: "read_chunks step parse (processStreamEvent parse) chunks d0 [] s = (k, d, b, s')"
    by (cases "read_chunks step parse (processStreamEvent parse) chunks d0 [] s")
  from read_chunks_frame [where s = s and step = step and parse = parse and chunks = chunks
      and d = d0 and buffer = "[]"] rc
  have "event_frame s s'" by simp
  with assms have "analyzeBtn_disabled s'" "resetBtn_disabled s'"
    by (simp_all add: event_frame_buttons)
  then show ?thesis using rc by (cases k) (simp_all add: read_loop_def read_end_click_ignored)
qed

lemma open_stream_buttons:
  "analyzeBtn_disabled (open_stream s) = analyzeBtn_disabled s \<and>
   resetBtn_disabled (open_stream s) = resetBtn_disabled s"
  using status_frame_set_and_store [of s "''orchestrator''" Active]
  by (auto simp: open_stream_def status_frame_def)

lemma begin_run_buttons: "analyzeBtn_disabled (begin_run s) \<and> resetBtn_disabled (begin_run s)"
  by (simp add: begin_run_def Let_def)

lemma streamQuery_click_ignored:
  "analyzeBtn_disabled s \<Longrightarrow> resetBtn_disabled s \<Longrightarrow>
   streamQuery step d0 parse (QueryBody chunks (Clicked c rest)) s =
     streamQuery step d0 parse (QueryBody chunks rest) s"
  by (simp add: streamQuery_def try_catch_def read_loop_click_ignored open_stream_buttons)

lemma startAnalysis_click_ignored:
  "startAnalysis step d0 parse (env\<lparr>query_response := QueryBody chunks (Clicked c rest)\<rparr>) s =
     startAnalysis step d0 parse (env\<lparr>query_response := QueryBody chunks rest\<rparr>) s"
proof -
  have "run_body step d0 parse (env\<lparr>query_response := QueryBody chunks (Clicked c rest)\<rparr>) (begin_run s) =
      run_body step d0 parse (env\<lparr>query_response := QueryBody chunks rest\<rparr>) (begin_run s)"
    using begin_run_buttons [of s]
    by (cases "createSession (session_response env)")
       (simp_all add: run_body_def bind_val_def andThen_def streamQuery_click_ignored)
  then show ?thesis by (simp add: startAnalysis_def try_catch_def)
qed

section \<open>Rendering the report\<close>

subsection \<open>The markup assigned to the report area\<close>

text \<open>
  The two fragments \<^verbatim>\<open>"# Title\n\n"\<close> and \<^verbatim>\<open>"**bold**"\<close> arrive as the contents of two
  events; the stream then ends. \<open>fragments_rendered\<close> is what line 516 assigns to
  \<^verbatim>\<open>reportContent.innerHTML\<close>.
\<close>

definition fragments_rendered :: report_display where
  "fragments_rendered =
     reportContent (finish_stream (snd (processStreamEvent JSON_parse
        (JObj [(''content'', JStr ''**bold**'')])
        (snd (processStreamEvent JSON_parse
           (JObj [(''content'', JStr (''# Title'' @ [newline, newline]))]) page_loaded)))))"

lemma fragments_rendered_markup:
  "fragments_rendered = ReportHtml ''<p><h1>Title</h1></p><p><strong>bold</strong></p>''"
  by code_simp

subsection \<open>The report area\<close>

text \<open>
  An assignment to \<^verbatim>\<open>innerHTML\<close> hands the string to the platform's HTML parser, and the
  nodes it builds become the children of the report area. The parser is the one of the
  HTML standard (fragment parsing, insertion mode "in body"); it is modelled here for
  the markup the conversion of lines 504 to 514 writes: the tags \<^verbatim>\<open>p\<close>, \<^verbatim>\<open>h1\<close> to \<^verbatim>\<open>h6\<close>,
  \<^verbatim>\<open>strong\<close>, \<^verbatim>\<open>em\<close> and \<^verbatim>\<open>code\<close>, without attributes, and text. The result is \<open>None\<close> for
  a markup outside of what is modelled.
\<close>
























end
